theory Spec2Isabelle
  imports Complex_Main "HOL-Library.Word"
begin

unbundle bit_operations_syntax

section \<open>Data model (nav\_data.h)\<close>

text \<open>
  The constants of \<^verbatim>\<open>nav_data.h\<close>. Fixed-size C arrays are modelled as total functions on
  their index; every access the source makes is bounds-checked by the model where the
  source itself does not guarantee the bound, and an out-of-range access is the error
  \<open>OutOfBounds\<close>.
\<close>

abbreviation (input) MAX_PORTALS_PER_CHUNK :: nat where "MAX_PORTALS_PER_CHUNK \<equiv> 64"
abbreviation (input) FIELD_RES_R :: nat where "FIELD_RES_R \<equiv> 64"
abbreviation (input) FIELD_RES_C :: nat where "FIELD_RES_C \<equiv> 64"
abbreviation (input) COST_IMPASSABLE :: "8 word" where "COST_IMPASSABLE \<equiv> 0xff"

record coord =
  r :: int
  c :: int

text \<open>
  A \<^verbatim>\<open>struct portal *\<close>: the null pointer, or the address of \<^verbatim>\<open>chunks[k].portals[i]\<close>
  inside the one allocated block of \<^verbatim>\<open>struct nav_private\<close>.
\<close>

datatype portal_ptr = NULL | PortalAt nat nat

text \<open>The edge cost is a C \<^verbatim>\<open>float\<close>; it is only stored, so its type is left abstract.\<close>

record 'w edge =
  neighbour :: portal_ptr
  cost :: 'w

record 'w portal =
  chunk :: coord
  endpoints :: "coord \<times> coord"
  num_neighbours :: nat
  edges :: "nat \<Rightarrow> 'w edge"
  connected :: portal_ptr

text \<open>
  \<^verbatim>\<open>cost_base[FIELD_RES_R][FIELD_RES_C]\<close> is kept in its row-major memory layout:
  cell \<open>(row, col)\<close> is at offset \<open>row * FIELD_RES_C + col\<close> from \<^verbatim>\<open>&cost_base[0][0]\<close>.
\<close>

record 'w nav_chunk =
  num_portals :: nat
  portals :: "nat \<Rightarrow> 'w portal"
  cost_base :: "nat \<Rightarrow> 8 word"

definition cell :: "nat \<Rightarrow> nat \<Rightarrow> nat" where
  "cell row col = row * FIELD_RES_C + col"

text \<open>
  \<^verbatim>\<open>struct nav_private\<close> (declared in \<^verbatim>\<open>nav_private.h\<close>): the map's width and height in
  chunks and the row-major array of chunks.
\<close>

record 'w nav_private =
  width :: nat
  height :: nat
  chunks :: "nat \<Rightarrow> 'w nav_chunk"

abbreviation (input) CHUNK_IDX :: "nat \<Rightarrow> nat \<Rightarrow> nat \<Rightarrow> nat" where
  "CHUNK_IDX row w col \<equiv> row * w + col"

text \<open>
  The fields of \<^verbatim>\<open>struct tile\<close> (declared in \<^verbatim>\<open>tile.h\<close>) that navigation reads.
  \<open>type\<close> is the value of the \<^verbatim>\<open>enum tiletype\<close>.
\<close>

record tile =
  pathable :: bool
  type :: int
  ramp_height :: int

section \<open>Errors and loops\<close>

text \<open>
  A failed \<^verbatim>\<open>assert\<close> aborts the process; an access outside a fixed-size array, a
  division by zero and a sum of two \<^verbatim>\<open>int\<close>s that no \<^verbatim>\<open>int\<close> holds are undefined behaviour.
  Each is a value of \<open>error\<close>.
\<close>

datatype error = AssertFailed | OutOfBounds | DivByZero | IntOverflow

definition seq :: "error + 'a \<Rightarrow> ('a \<Rightarrow> error + 'b) \<Rightarrow> error + 'b" where
  "seq m f = (case m of Inl e \<Rightarrow> Inl e | Inr x \<Rightarrow> f x)"

text \<open>
  \<^verbatim>\<open>for(int i = 0; i < n; i++) body\<close>: the body runs for \<open>i = 0, \<dots>, n - 1\<close> in this
  order, and the first error ends the loop.
\<close>

primrec for_upto :: "nat \<Rightarrow> (nat \<Rightarrow> 's \<Rightarrow> error + 's) \<Rightarrow> 's \<Rightarrow> error + 's" where
  "for_upto 0 body s = Inr s"
| "for_upto (Suc n) body s = seq (for_upto n body s) (body n)"

section \<open>Cost field builder\<close>

text \<open>
  \<^verbatim>\<open>n_tile_pathable\<close>. The source's second test is \<^verbatim>\<open>!tile->type == TILETYPE_FLAT\<close>, which C
  reads as \<^verbatim>\<open>(!tile->type) == TILETYPE_FLAT\<close>: the negation yields 1 for type 0 and 0
  otherwise, and that integer is compared with the enumerator. The enumerator's value is
  declared in \<^verbatim>\<open>tile.h\<close> and is a parameter here.
\<close>

definition n_tile_pathable :: "int \<Rightarrow> tile \<Rightarrow> bool" where
  "n_tile_pathable TILETYPE_FLAT tile =
     (if \<not> pathable tile then False
      else if (if type tile = 0 then (1::int) else 0) = TILETYPE_FLAT \<and> ramp_height tile > 1 then False
      else True)"

definition n_set_cost_for_tile ::
  "int \<Rightarrow> 'w nav_chunk \<Rightarrow> nat \<Rightarrow> nat \<Rightarrow> nat \<Rightarrow> nat \<Rightarrow> tile \<Rightarrow> error + 'w nav_chunk" where
  "n_set_cost_for_tile TILETYPE_FLAT ch chunk_w chunk_h tile_r tile_c tile =
     (if chunk_h = 0 \<or> chunk_w = 0 then Inl DivByZero
      else
        let field_per_map_r = FIELD_RES_R div chunk_h;
            field_per_map_c = FIELD_RES_C div chunk_w;
            r_base = tile_r * field_per_map_r;
            c_base = tile_c * field_per_map_c;
            cost = (if n_tile_pathable TILETYPE_FLAT tile then 1 else COST_IMPASSABLE)
        in for_upto field_per_map_r (\<lambda>r.
             for_upto field_per_map_c (\<lambda>c ch.
               if r_base + r < FIELD_RES_R \<and> c_base + c < FIELD_RES_C
               then Inr (ch\<lparr>cost_base := (cost_base ch)(cell (r_base + r) (c_base + c) := cost)\<rparr>)
               else Inl OutOfBounds)) ch)"

text \<open>
  The cells that the first \<open>nr\<close> rows of a tile's block cover, plus the first \<open>nc\<close> cells of
  row \<open>nr\<close>.
\<close>

definition in_block :: "nat \<Rightarrow> nat \<Rightarrow> nat \<Rightarrow> nat \<Rightarrow> nat \<Rightarrow> nat \<Rightarrow> bool" where
  "in_block r_base c_base nr nc w k \<longleftrightarrow>
     c_base \<le> k mod 64 \<and>
     ((r_base \<le> k div 64 \<and> k div 64 < r_base + nr \<and> k mod 64 < c_base + w) \<or>
      (k div 64 = r_base + nr \<and> k mod 64 < c_base + nc))"

definition fill_block ::
  "nat \<Rightarrow> nat \<Rightarrow> nat \<Rightarrow> nat \<Rightarrow> nat \<Rightarrow> 8 word \<Rightarrow> 'w nav_chunk \<Rightarrow> 'w nav_chunk" where
  "fill_block r_base c_base nr nc w v ch =
     ch\<lparr>cost_base := (\<lambda>k. if in_block r_base c_base nr nc w k then v else cost_base ch k)\<rparr>"

section \<open>Portal discovery\<close>

text \<open>\<^verbatim>\<open>enum edge_type\<close> and the enumerators' values \<^verbatim>\<open>1 << 0\<close>, \<dots>, \<^verbatim>\<open>1 << 3\<close>.\<close>

datatype edge_type = EDGE_BOT | EDGE_LEFT | EDGE_RIGHT | EDGE_TOP

primrec edge_bits :: "edge_type \<Rightarrow> int" where
  "edge_bits EDGE_BOT = 1"
| "edge_bits EDGE_LEFT = 2"
| "edge_bits EDGE_RIGHT = 4"
| "edge_bits EDGE_TOP = 8"

text \<open>
  The assertion that opens \<^verbatim>\<open>n_link_chunks\<close>, as C parses it: \<^verbatim>\<open>==\<close> binds tighter than
  \<^verbatim>\<open>|\<close>, so each disjunct is \<^verbatim>\<open>a_type | (b_type == EDGE_BOT) | EDGE_TOP\<close>, tested against zero.
\<close>

definition edge_types_assert :: "edge_type \<Rightarrow> edge_type \<Rightarrow> bool" where
  "edge_types_assert a_type b_type \<longleftrightarrow>
     (edge_bits a_type OR (if edge_bits b_type = edge_bits EDGE_BOT then 1 else 0) OR edge_bits EDGE_TOP) \<noteq> 0
     \<or> (edge_bits a_type OR (if edge_bits b_type = edge_bits EDGE_LEFT then 1 else 0) OR edge_bits EDGE_RIGHT) \<noteq> 0"

text \<open>The chain of conditionals that sets \<^verbatim>\<open>a_fixed_idx\<close> and \<^verbatim>\<open>b_fixed_idx\<close>; its last arm is \<^verbatim>\<open>assert(0)\<close>.\<close>

definition fixed_idx :: "edge_type \<Rightarrow> error + int" where
  "fixed_idx t =
     (if t = EDGE_TOP then Inr 0
      else if t = EDGE_BOT then Inr (int FIELD_RES_R - 1)
      else if t = EDGE_LEFT then Inr 0
      else if t = EDGE_RIGHT then Inr (int FIELD_RES_C - 1)
      else Inl AssertFailed)"

text \<open>
  The coordinate of position \<open>i\<close> along an edge: \<^verbatim>\<open>(fixed, i)\<close> on a top or bottom edge,
  \<^verbatim>\<open>(i, fixed)\<close> on a left or right edge; the last arm is \<^verbatim>\<open>assert(0)\<close>.
\<close>

definition edge_coord :: "edge_type \<Rightarrow> int \<Rightarrow> int \<Rightarrow> error + coord" where
  "edge_coord t fixed i =
     (if edge_bits t AND (edge_bits EDGE_TOP OR edge_bits EDGE_BOT) \<noteq> 0 then Inr \<lparr>r = fixed, c = i\<rparr>
      else if edge_bits t AND (edge_bits EDGE_LEFT OR edge_bits EDGE_RIGHT) \<noteq> 0 then Inr \<lparr>r = i, c = fixed\<rparr>
      else Inl AssertFailed)"

text \<open>
  The compound literal \<^verbatim>\<open>(struct portal){.chunk = \<dots>, .endpoints[0] = \<dots>, .num_neighbours = 0,
  .connected = \<dots>}\<close>: the members it does not name are zero.
\<close>

definition new_portal :: "coord \<Rightarrow> coord \<Rightarrow> portal_ptr \<Rightarrow> ('w::zero) portal" where
  "new_portal chunk_coord e0 conn =
     \<lparr>chunk = chunk_coord, endpoints = (e0, \<lparr>r = 0, c = 0\<rparr>), num_neighbours = 0,
      edges = (\<lambda>_. \<lparr>neighbour = NULL, cost = 0\<rparr>), connected = conn\<rparr>"

text \<open>
  One iteration of the scan of \<^verbatim>\<open>n_link_chunks\<close>. The state is \<open>(a, b, in_portal, a_cursor,
  b_cursor)\<close>: the two chunks, the flag, and the cursors as offsets from
  \<^verbatim>\<open>&cost_base[0][0]\<close> of their chunk. \<open>a_ptr\<close> and \<open>b_ptr\<close> are the indices of \<open>a\<close> and \<open>b\<close> in
  \<^verbatim>\<open>priv->chunks\<close>; they give the values of the \<^verbatim>\<open>connected\<close> pointers.

  The second assertion of the source tests \<^verbatim>\<open>CURSOR_OFF(a_cursor, &b->cost_base[0][0])\<close> against
  the grid size: with both chunks in one array of \<^verbatim>\<open>struct nav_chunk\<close>, each larger than a cost
  grid, this holds when \<open>a\<close> precedes \<open>b\<close>, fails when \<open>a\<close> follows \<open>b\<close>, and is the first
  assertion when they coincide. Nothing in the source bounds \<open>b_cursor\<close> from above before
  it is read.
\<close>

definition link_step ::
  "nat \<Rightarrow> edge_type \<Rightarrow> coord \<Rightarrow> int \<Rightarrow> nat \<Rightarrow> edge_type \<Rightarrow> coord \<Rightarrow> int \<Rightarrow> nat \<Rightarrow> nat \<Rightarrow> nat \<Rightarrow>
   ('w::zero) nav_chunk \<times> 'w nav_chunk \<times> bool \<times> nat \<times> nat \<Rightarrow>
   error + ('w nav_chunk \<times> 'w nav_chunk \<times> bool \<times> nat \<times> nat)" where
  "link_step a_ptr a_type a_coord a_fixed_idx b_ptr b_type b_coord b_fixed_idx line_len stride i st =
     (case st of (a, b, in_portal, a_cursor, b_cursor) \<Rightarrow>
       if \<not> a_cursor < FIELD_RES_R * FIELD_RES_C then Inl AssertFailed
       else if \<not> (a_ptr < b_ptr \<or> (a_ptr = b_ptr \<and> a_cursor < FIELD_RES_R * FIELD_RES_C)) then Inl AssertFailed
       else if \<not> b_cursor < FIELD_RES_R * FIELD_RES_C then Inl OutOfBounds
       else
         let can_cross = (cost_base a a_cursor \<noteq> COST_IMPASSABLE \<and> cost_base b b_cursor \<noteq> COST_IMPASSABLE) in
         if can_cross \<and> \<not> in_portal then
           seq (edge_coord a_type a_fixed_idx (int i)) (\<lambda>a_e0.
           if \<not> num_portals a < MAX_PORTALS_PER_CHUNK then Inl OutOfBounds
           else
             let a = a\<lparr>portals := (portals a)(num_portals a :=
                         new_portal a_coord a_e0 (PortalAt b_ptr (num_portals b)))\<rparr> in
             seq (edge_coord b_type b_fixed_idx (int i)) (\<lambda>b_e0.
             if \<not> num_portals b < MAX_PORTALS_PER_CHUNK then Inl OutOfBounds
             else
               let b = b\<lparr>portals := (portals b)(num_portals b :=
                           new_portal b_coord b_e0 (PortalAt a_ptr (num_portals a)))\<rparr>
               in Inr (a, b, True, a_cursor + stride, b_cursor + stride)))
         else if in_portal \<and> (\<not> can_cross \<or> i = line_len - 1) then
           let idx = (if \<not> can_cross then int i - 1 else int i) in
           seq (edge_coord a_type a_fixed_idx idx) (\<lambda>a_e1.
           if \<not> num_portals a < MAX_PORTALS_PER_CHUNK then Inl OutOfBounds
           else
             let a = a\<lparr>portals := (portals a)(num_portals a :=
                         (portals a (num_portals a))
                           \<lparr>endpoints := (fst (endpoints (portals a (num_portals a))), a_e1)\<rparr>)\<rparr> in
             seq (edge_coord b_type b_fixed_idx idx) (\<lambda>b_e1.
             if \<not> num_portals b < MAX_PORTALS_PER_CHUNK then Inl OutOfBounds
             else
               let b = b\<lparr>portals := (portals b)(num_portals b :=
                           (portals b (num_portals b))
                             \<lparr>endpoints := (fst (endpoints (portals b (num_portals b))), b_e1)\<rparr>)\<rparr>;
                   a = a\<lparr>num_portals := num_portals a + 1\<rparr>;
                   b = b\<lparr>num_portals := num_portals b + 1\<rparr>
               in if \<not> num_portals a \<le> MAX_PORTALS_PER_CHUNK then Inl AssertFailed
                  else if \<not> num_portals b \<le> MAX_PORTALS_PER_CHUNK then Inl AssertFailed
                  else Inr (a, b, False, a_cursor + stride, b_cursor + stride)))
         else Inr (a, b, in_portal, a_cursor + stride, b_cursor + stride))"

text \<open>
  \<^verbatim>\<open>n_link_chunks\<close>, for two distinct chunks (at every call the second chunk lies after the
  first in \<^verbatim>\<open>priv->chunks\<close>): it takes the chunks by value and returns both as it leaves them.
\<close>

definition n_link_chunks ::
  "nat \<Rightarrow> ('w::zero) nav_chunk \<Rightarrow> edge_type \<Rightarrow> coord \<Rightarrow> nat \<Rightarrow> 'w nav_chunk \<Rightarrow> edge_type \<Rightarrow> coord \<Rightarrow>
   error + ('w nav_chunk \<times> 'w nav_chunk)" where
  "n_link_chunks a_ptr a a_type a_coord b_ptr b b_type b_coord =
     (if \<not> edge_types_assert a_type b_type then Inl AssertFailed
      else
        let stride = (if edge_bits a_type AND (edge_bits EDGE_BOT OR edge_bits EDGE_TOP) \<noteq> 0
                      then 1 else FIELD_RES_C);
            line_len = (if edge_bits a_type AND (edge_bits EDGE_BOT OR edge_bits EDGE_TOP) \<noteq> 0
                        then FIELD_RES_C else FIELD_RES_R);
            a_cursor = cell (if a_type = EDGE_BOT then FIELD_RES_R - 1 else 0)
                            (if a_type = EDGE_RIGHT then FIELD_RES_C - 1 else 0);
            b_cursor = cell (if b_type = EDGE_BOT then FIELD_RES_R - 1 else 0)
                            (if b_type = EDGE_RIGHT then FIELD_RES_C - 1 else 0)
        in seq (fixed_idx a_type) (\<lambda>a_fixed_idx.
           seq (fixed_idx b_type) (\<lambda>b_fixed_idx.
           seq (for_upto line_len
                  (link_step a_ptr a_type a_coord a_fixed_idx b_ptr b_type b_coord b_fixed_idx line_len stride)
                  (a, b, False, a_cursor, b_cursor))
               (\<lambda>(a, b, in_portal, a_cursor, b_cursor). Inr (a, b)))))"

text \<open>
  A call \<^verbatim>\<open>n_link_chunks(&priv->chunks[ai], \<dots>, &priv->chunks[bi], \<dots>)\<close> on the array of chunks.
\<close>

definition link_chunks_at ::
  "('w::zero) nav_private \<Rightarrow> nat \<Rightarrow> edge_type \<Rightarrow> coord \<Rightarrow> nat \<Rightarrow> edge_type \<Rightarrow> coord \<Rightarrow> error + 'w nav_private" where
  "link_chunks_at priv ai a_type a_coord bi b_type b_coord =
     seq (n_link_chunks ai (chunks priv ai) a_type a_coord bi (chunks priv bi) b_type b_coord)
       (\<lambda>(a, b). Inr (priv\<lparr>chunks := (chunks priv)(ai := a, bi := b)\<rparr>))"

text \<open>
  The body and the two loops of \<^verbatim>\<open>n_create_portals\<close>. The state is \<open>(priv, n_links, calls)\<close>; \<open>calls\<close> is
  not a variable of the source: it lists the calls of \<^verbatim>\<open>n_link_chunks\<close> in the order they are
  made, each as (index of \<open>a\<close>, \<open>a_type\<close>, index of \<open>b\<close>, \<open>b_type\<close>), and nothing reads it.
\<close>

type_synonym link_call = "nat \<times> edge_type \<times> nat \<times> edge_type"

definition n_create_portals_body ::
  "nat \<Rightarrow> nat \<Rightarrow> ('w::zero) nav_private \<times> nat \<times> link_call list \<Rightarrow>
   error + ('w nav_private \<times> nat \<times> link_call list)" where
  "n_create_portals_body = (\<lambda>r c (priv, n_links, calls).
     let curr = CHUNK_IDX r (width priv) c;
         bot = (if r < height priv - 1 then Some (CHUNK_IDX (r + 1) (width priv) c) else None);
         right = (if c < width priv - 1 then Some (CHUNK_IDX r (width priv) (c + 1)) else None)
     in
     seq (case bot of None \<Rightarrow> Inr (priv, calls)
          | Some bi \<Rightarrow>
              seq (link_chunks_at priv curr EDGE_BOT \<lparr>r = int r, c = int c\<rparr>
                     bi EDGE_TOP \<lparr>r = int r + 1, c = int c\<rparr>)
                (\<lambda>priv. Inr (priv, calls @ [(curr, EDGE_BOT, bi, EDGE_TOP)])))
     (\<lambda>(priv, calls).
     seq (case right of None \<Rightarrow> Inr (priv, calls)
          | Some ri \<Rightarrow>
              seq (link_chunks_at priv curr EDGE_RIGHT \<lparr>r = int r, c = int c\<rparr>
                     ri EDGE_LEFT \<lparr>r = int r, c = int c + 1\<rparr>)
                (\<lambda>priv. Inr (priv, calls @ [(curr, EDGE_RIGHT, ri, EDGE_LEFT)])))
     (\<lambda>(priv, calls).
       Inr (priv, n_links + ((if bot \<noteq> None then 1 else 0) + (if right \<noteq> None then 1 else 0)), calls))))"

definition n_create_portals_loops ::
  "('w::zero) nav_private \<Rightarrow> error + ('w nav_private \<times> nat \<times> link_call list)" where
  "n_create_portals_loops priv0 =
     for_upto (height priv0) (\<lambda>r. for_upto (width priv0) (\<lambda>c. n_create_portals_body r c)) (priv0, 0, [])"

text \<open>\<^verbatim>\<open>n_create_portals\<close>: the loops, then the assertion on \<^verbatim>\<open>n_links\<close>.\<close>

definition n_create_portals :: "('w::zero) nav_private \<Rightarrow> error + 'w nav_private" where
  "n_create_portals priv0 =
     seq (n_create_portals_loops priv0) (\<lambda>(priv, n_links, calls).
       if \<not> n_links = width priv * (width priv - 1) + height priv * (height priv - 1)
       then Inl AssertFailed
       else Inr priv)"

section \<open>Portal linker\<close>

text \<open>C's \<^verbatim>\<open>/\<close> on \<^verbatim>\<open>int\<close> truncates toward zero.\<close>

definition c_div :: "int \<Rightarrow> int \<Rightarrow> int" where
  "c_div x y = sgn x * sgn y * (\<bar>x\<bar> div \<bar>y\<bar>)"

text \<open>
  \<^verbatim>\<open>AStar_GridPath(a, b, chunk->cost_base, &path, &cost)\<close> is declared in \<^verbatim>\<open>a_star.h\<close> and is a
  parameter: it returns \<open>Some cost\<close> when it reports a path and \<open>None\<close> when it reports none.
  The path it also returns is never read.
\<close>

type_synonym 'w grid_path = "coord \<Rightarrow> coord \<Rightarrow> (nat \<Rightarrow> 8 word) \<Rightarrow> 'w option"

text \<open>
  C's \<^verbatim>\<open>+\<close> on \<^verbatim>\<open>int\<close>, 32 bits wide: a sum outside \<open>- 2 ^ 31, \<dots>, 2 ^ 31 - 1\<close> is
  undefined behaviour.
\<close>

definition c_add :: "int \<Rightarrow> int \<Rightarrow> error + int" where
  "c_add x y = (if - (2 ^ 31) \<le> x + y \<and> x + y < 2 ^ 31 then Inr (x + y) else Inl IntOverflow)"

text \<open>
  The body of the inner loop of \<^verbatim>\<open>n_link_chunk_portals\<close>, for the pair \<open>(i, j)\<close>. The four sums
  of endpoint coordinates are C sums, taken in the order of the source.
\<close>

definition link_pair :: "'w grid_path \<Rightarrow> nat \<Rightarrow> nat \<Rightarrow> nat \<Rightarrow> 'w nav_chunk \<Rightarrow> error + 'w nav_chunk" where
  "link_pair AStar_GridPath chunk_ptr i j ch =
     (if i = j then Inr ch
      else if \<not> (i < MAX_PORTALS_PER_CHUNK \<and> j < MAX_PORTALS_PER_CHUNK) then Inl OutOfBounds
      else
        let port = portals ch i;
            link_candidate = portals ch j
        in
        seq (c_add (r (fst (endpoints port))) (r (snd (endpoints port)))) (\<lambda>a_r.
        seq (c_add (c (fst (endpoints port))) (c (snd (endpoints port)))) (\<lambda>a_c.
        seq (c_add (r (fst (endpoints link_candidate))) (r (snd (endpoints link_candidate)))) (\<lambda>b_r.
        seq (c_add (c (fst (endpoints link_candidate))) (c (snd (endpoints link_candidate)))) (\<lambda>b_c.
          let a = \<lparr>r = c_div a_r 2, c = c_div a_c 2\<rparr>;
              b = \<lparr>r = c_div b_r 2, c = c_div b_c 2\<rparr>
          in case AStar_GridPath a b (cost_base ch) of
               None \<Rightarrow> Inr ch
             | Some path_cost \<Rightarrow>
                 if \<not> num_neighbours port < MAX_PORTALS_PER_CHUNK - 1 then Inl OutOfBounds
                 else Inr (ch\<lparr>portals := (portals ch)(i :=
                        port\<lparr>edges := (edges port)(num_neighbours port :=
                                         \<lparr>neighbour = PortalAt chunk_ptr j, cost = path_cost\<rparr>),
                             num_neighbours := num_neighbours port + 1\<rparr>)\<rparr>))))))"

text \<open>
  \<^verbatim>\<open>n_link_chunk_portals\<close>; \<open>chunk_ptr\<close> is the index of the chunk in \<^verbatim>\<open>priv->chunks\<close>. The loop
  bound \<^verbatim>\<open>chunk->num_portals\<close> is not written by the loops.
\<close>

definition n_link_chunk_portals :: "'w grid_path \<Rightarrow> nat \<Rightarrow> 'w nav_chunk \<Rightarrow> error + 'w nav_chunk" where
  "n_link_chunk_portals AStar_GridPath chunk_ptr ch =
     for_upto (num_portals ch) (\<lambda>i.
       for_upto (num_portals ch) (\<lambda>j. link_pair AStar_GridPath chunk_ptr i j)) ch"

section \<open>Navigation store\<close>

text \<open>
  \<^verbatim>\<open>N_BuildForMapData\<close>. \<open>alloc\<close> is what \<^verbatim>\<open>malloc\<close> returns: \<open>None\<close> when it fails, and
  otherwise the block with the contents it happens to have. \<open>chunk_tiles k t\<close> is tile \<open>t\<close>
  of the tile array of chunk \<open>k\<close>. The result \<open>Inr None\<close> is the null handle.
\<close>

definition build_cost_fields ::
  "int \<Rightarrow> nat \<Rightarrow> nat \<Rightarrow> (nat \<Rightarrow> nat \<Rightarrow> tile) \<Rightarrow> 'w nav_private \<Rightarrow> error + 'w nav_private" where
  "build_cost_fields TILETYPE_FLAT chunk_w chunk_h chunk_tiles ret0 =
     for_upto (height ret0) (\<lambda>chunk_r.
       for_upto (width ret0) (\<lambda>chunk_c ret.
         let curr_chunk = chunks ret (CHUNK_IDX chunk_r (width ret) chunk_c);
             curr_tiles = chunk_tiles (CHUNK_IDX chunk_r (width ret) chunk_c);
             curr_chunk = curr_chunk\<lparr>num_portals := 0\<rparr>
         in seq (for_upto chunk_h (\<lambda>tile_r.
                   for_upto chunk_w (\<lambda>tile_c curr_chunk.
                     n_set_cost_for_tile TILETYPE_FLAT curr_chunk chunk_w chunk_h tile_r tile_c
                       (curr_tiles (tile_r * chunk_w + tile_c)))) curr_chunk)
              (\<lambda>curr_chunk.
                 Inr (ret\<lparr>chunks := (chunks ret)(CHUNK_IDX chunk_r (width ret) chunk_c := curr_chunk)\<rparr>))))
       ret0"

definition link_all_chunk_portals :: "'w grid_path \<Rightarrow> 'w nav_private \<Rightarrow> error + 'w nav_private" where
  "link_all_chunk_portals AStar_GridPath ret0 =
     for_upto (height ret0) (\<lambda>chunk_r.
       for_upto (width ret0) (\<lambda>chunk_c ret.
         seq (n_link_chunk_portals AStar_GridPath (CHUNK_IDX chunk_r (width ret) chunk_c)
                (chunks ret (CHUNK_IDX chunk_r (width ret) chunk_c)))
           (\<lambda>curr_chunk.
              Inr (ret\<lparr>chunks := (chunks ret)(CHUNK_IDX chunk_r (width ret) chunk_c := curr_chunk)\<rparr>))))
       ret0"

definition N_BuildForMapData ::
  "int \<Rightarrow> 'w grid_path \<Rightarrow> ('w::zero) nav_private option \<Rightarrow> nat \<Rightarrow> nat \<Rightarrow> nat \<Rightarrow> nat \<Rightarrow>
   (nat \<Rightarrow> nat \<Rightarrow> tile) \<Rightarrow> error + 'w nav_private option" where
  "N_BuildForMapData TILETYPE_FLAT AStar_GridPath alloc w h chunk_w chunk_h chunk_tiles =
     (case alloc of
        None \<Rightarrow> Inr None
      | Some ret \<Rightarrow>
          let ret = ret\<lparr>width := w, height := h\<rparr> in
          if \<not> FIELD_RES_R \<ge> chunk_h then Inl AssertFailed
          else if chunk_h = 0 then Inl DivByZero
          else if \<not> FIELD_RES_R mod chunk_h = 0 then Inl AssertFailed
          else if \<not> FIELD_RES_C \<ge> chunk_w then Inl AssertFailed
          else if chunk_w = 0 then Inl DivByZero
          else if \<not> FIELD_RES_C mod chunk_w = 0 then Inl AssertFailed
          else
            seq (build_cost_fields TILETYPE_FLAT chunk_w chunk_h chunk_tiles ret) (\<lambda>ret.
            seq (n_create_portals ret) (\<lambda>ret.
            seq (link_all_chunk_portals AStar_GridPath ret) (\<lambda>ret.
            Inr (Some ret)))))"

section \<open>Debug overlay\<close>

text \<open>
  A quad of the overlay. Its four corners are floating-point functions of the cell
  \<open>(r, c)\<close> alone, so a quad is the cell and its colour. A call of
  \<^verbatim>\<open>R_GL_DrawMapOverlayQuads\<close> is the list of the quads it is handed.
\<close>

type_synonym vec3 = "real \<times> real \<times> real"
type_synonym quad = "int \<times> int \<times> vec3"

text \<open>\<^verbatim>\<open>for(int x = lo; x <= hi; x++) body\<close>\<close>

definition for_range :: "int \<Rightarrow> int \<Rightarrow> (int \<Rightarrow> 's \<Rightarrow> error + 's) \<Rightarrow> 's \<Rightarrow> error + 's" where
  "for_range lo hi body s = for_upto (nat (hi - lo + 1)) (\<lambda>k. body (lo + int k)) s"

text \<open>
  \<^verbatim>\<open>n_render_portals\<close>: the quads it hands to the renderer. Its buffers hold
  \<^verbatim>\<open>2 * FIELD_RES_C + 2 * FIELD_RES_R\<close> quads.
\<close>

definition n_render_portals :: "'w nav_chunk \<Rightarrow> error + quad list" where
  "n_render_portals ch =
     for_upto (num_portals ch) (\<lambda>i quads.
       if \<not> i < MAX_PORTALS_PER_CHUNK then Inl OutOfBounds
       else
         let port = portals ch i;
             r_start = min (r (fst (endpoints port))) (r (snd (endpoints port)));
             r_end = max (r (fst (endpoints port))) (r (snd (endpoints port)))
         in for_range r_start r_end (\<lambda>r.
              let c_start = min (c (fst (endpoints port))) (c (snd (endpoints port)));
                  c_end = max (c (fst (endpoints port))) (c (snd (endpoints port)))
              in for_range c_start c_end (\<lambda>c quads.
                   if \<not> length quads < 2 * FIELD_RES_C + 2 * FIELD_RES_R then Inl OutOfBounds
                   else Inr (quads @ [(r, c, (1, 1, 0))]))) quads)
       []"

text \<open>
  \<^verbatim>\<open>N_RenderPathableChunk\<close>: the calls of \<^verbatim>\<open>R_GL_DrawMapOverlayQuads\<close> it makes, in order.
  \<^verbatim>\<open>chunk_r\<close> and \<^verbatim>\<open>chunk_c\<close> are C \<^verbatim>\<open>int\<close>s compared with unsigned sizes, so a negative
  one fails the assertion.
\<close>

definition N_RenderPathableChunk :: "'w nav_private \<Rightarrow> int \<Rightarrow> int \<Rightarrow> error + quad list list" where
  "N_RenderPathableChunk priv chunk_r chunk_c =
     (if \<not> (0 \<le> chunk_r \<and> nat chunk_r < height priv) then Inl AssertFailed
      else if \<not> (0 \<le> chunk_c \<and> nat chunk_c < width priv) then Inl AssertFailed
      else
        let ch = chunks priv (CHUNK_IDX (nat chunk_r) (width priv) (nat chunk_c)) in
        seq (n_render_portals ch) (\<lambda>portal_quads.
        seq (for_upto FIELD_RES_R (\<lambda>r.
               for_upto FIELD_RES_C (\<lambda>c quads.
                 Inr (quads @ [(int r, int c,
                        if cost_base ch (cell r c) = COST_IMPASSABLE then (1, 0, 0) else (0, 1, 0))]))) [])
          (\<lambda>cell_quads.
             if \<not> length cell_quads = FIELD_RES_R * FIELD_RES_C then Inl AssertFailed
             else Inr [portal_quads, cell_quads])))"

section \<open>Closed forms used in the proofs\<close>

text \<open>
  The scan of \<^verbatim>\<open>n_link_chunks\<close> on the flags alone: the spans it has closed so far, as
  (first, last) positions along the edge, and the first position of the span that is
  open, if one is. The chunks after the scan are given in terms of it.
\<close>

type_synonym scan_state = "(nat \<times> nat) list \<times> nat option"

definition scan_step :: "(nat \<Rightarrow> bool) \<Rightarrow> nat \<Rightarrow> nat \<Rightarrow> scan_state \<Rightarrow> scan_state" where
  "scan_step can_cross line_len i st =
     (case st of (spans, cur) \<Rightarrow>
        (case cur of
           None \<Rightarrow> if can_cross i then (spans, Some i) else (spans, None)
         | Some start \<Rightarrow>
             if \<not> can_cross i \<or> i = line_len - 1
             then (spans @ [(start, if \<not> can_cross i then i - 1 else i)], None)
             else (spans, Some start)))"

primrec scan :: "(nat \<Rightarrow> bool) \<Rightarrow> nat \<Rightarrow> nat \<Rightarrow> scan_state" where
  "scan can_cross line_len 0 = ([], None)"
| "scan can_cross line_len (Suc i) = scan_step can_cross line_len i (scan can_cross line_len i)"

definition fixed_of :: "edge_type \<Rightarrow> int" where
  "fixed_of t = (case t of EDGE_TOP \<Rightarrow> 0 | EDGE_BOT \<Rightarrow> 63 | EDGE_LEFT \<Rightarrow> 0 | EDGE_RIGHT \<Rightarrow> 63)"

definition edge_pt :: "edge_type \<Rightarrow> nat \<Rightarrow> coord" where
  "edge_pt t i =
     (case t of
        EDGE_TOP \<Rightarrow> \<lparr>r = 0, c = int i\<rparr>
      | EDGE_BOT \<Rightarrow> \<lparr>r = 63, c = int i\<rparr>
      | EDGE_LEFT \<Rightarrow> \<lparr>r = int i, c = 0\<rparr>
      | EDGE_RIGHT \<Rightarrow> \<lparr>r = int i, c = 63\<rparr>)"

definition span_portal :: "coord \<Rightarrow> edge_type \<Rightarrow> portal_ptr \<Rightarrow> nat \<times> nat \<Rightarrow> ('w::zero) portal" where
  "span_portal chunk_coord t conn sp =
     \<lparr>chunk = chunk_coord, endpoints = (edge_pt t (fst sp), edge_pt t (snd sp)), num_neighbours = 0,
      edges = (\<lambda>_. \<lparr>neighbour = NULL, cost = 0\<rparr>), connected = conn\<rparr>"

definition linked_portals ::
  "(nat \<Rightarrow> ('w::zero) portal) \<Rightarrow> nat \<Rightarrow> edge_type \<Rightarrow> coord \<Rightarrow> nat \<Rightarrow> nat \<Rightarrow>
   (nat \<times> nat) list \<Rightarrow> nat option \<Rightarrow> nat \<Rightarrow> 'w portal" where
  "linked_portals ps n0 t cc p np spans cur k =
     (if n0 \<le> k \<and> k < n0 + length spans
      then span_portal cc t (PortalAt p (np + (k - n0))) (spans ! (k - n0))
      else if k = n0 + length spans
      then (case cur of
              None \<Rightarrow> ps k
            | Some start \<Rightarrow> new_portal cc (edge_pt t start) (PortalAt p (np + length spans)))
      else ps k)"

definition linked_chunk ::
  "('w::zero) nav_chunk \<Rightarrow> edge_type \<Rightarrow> coord \<Rightarrow> nat \<Rightarrow> nat \<Rightarrow> scan_state \<Rightarrow> 'w nav_chunk" where
  "linked_chunk a a_type a_coord b_ptr b_np st =
     a\<lparr>num_portals := num_portals a + length (fst st),
       portals := linked_portals (portals a) (num_portals a) a_type a_coord b_ptr b_np (fst st) (snd st)\<rparr>"

definition opened :: "scan_state \<Rightarrow> nat" where
  "opened st = length (fst st) + (if snd st = None then 0 else 1)"

definition can_cross_at :: "(nat \<Rightarrow> 8 word) \<Rightarrow> (nat \<Rightarrow> 8 word) \<Rightarrow> nat \<Rightarrow> nat \<Rightarrow> nat \<Rightarrow> nat \<Rightarrow> bool" where
  "can_cross_at ga gb a0 b0 stride i \<longleftrightarrow>
     ga (a0 + i * stride) \<noteq> COST_IMPASSABLE \<and> gb (b0 + i * stride) \<noteq> COST_IMPASSABLE"

definition link_stride :: "edge_type \<Rightarrow> nat" where
  "link_stride t = (if t = EDGE_BOT \<or> t = EDGE_TOP then 1 else FIELD_RES_C)"

definition edge_start :: "edge_type \<Rightarrow> nat" where
  "edge_start t = cell (if t = EDGE_BOT then FIELD_RES_R - 1 else 0) (if t = EDGE_RIGHT then FIELD_RES_C - 1 else 0)"

definition crossable :: "'w nav_chunk \<Rightarrow> edge_type \<Rightarrow> 'w nav_chunk \<Rightarrow> edge_type \<Rightarrow> nat \<Rightarrow> bool" where
  "crossable a a_type b b_type =
     can_cross_at (cost_base a) (cost_base b) (edge_start a_type) (edge_start b_type) (link_stride a_type)"

definition link_spans :: "'w nav_chunk \<Rightarrow> edge_type \<Rightarrow> 'w nav_chunk \<Rightarrow> edge_type \<Rightarrow> scan_state" where
  "link_spans a a_type b b_type = scan (crossable a a_type b b_type) 64 64"

definition facing :: "edge_type \<Rightarrow> edge_type \<Rightarrow> bool" where
  "facing a_type b_type \<longleftrightarrow>
     (a_type = EDGE_BOT \<and> b_type = EDGE_TOP) \<or> (a_type = EDGE_RIGHT \<and> b_type = EDGE_LEFT)"

text \<open>What the scan knows after \<open>i\<close> positions: every closed span and the open one are runs of crossable positions.\<close>

definition spans_ok :: "(nat \<Rightarrow> bool) \<Rightarrow> nat \<Rightarrow> scan_state \<Rightarrow> bool" where
  "spans_ok f i st \<longleftrightarrow>
     (\<forall>sp \<in> set (fst st). fst sp \<le> snd sp \<and> snd sp < i \<and> (\<forall>k. fst sp \<le> k \<and> k \<le> snd sp \<longrightarrow> f k)) \<and>
     (\<forall>s. snd st = Some s \<longrightarrow> s < i \<and> (\<forall>k. s \<le> k \<and> k < i \<longrightarrow> f k))"

text \<open>
  The calls that the claim expects of chunk \<open>k\<close>: one to its bottom neighbour if it has
  one, then one to its right neighbour if it has one.
\<close>

definition cell_calls :: "nat \<Rightarrow> nat \<Rightarrow> nat \<Rightarrow> link_call list" where
  "cell_calls w h k =
     (if k div w + 1 < h then [(k, EDGE_BOT, k + w, EDGE_TOP)] else []) @
     (if k mod w + 1 < w then [(k, EDGE_RIGHT, k + 1, EDGE_LEFT)] else [])"

definition adjacency_calls :: "nat \<Rightarrow> nat \<Rightarrow> link_call list" where
  "adjacency_calls w h = concat (map (cell_calls w h) [0..<h * w])"

definition links_after :: "nat \<Rightarrow> nat \<Rightarrow> nat \<Rightarrow> nat \<Rightarrow> nat" where
  "links_after w h i j = min i (h - 1) * w + i * (w - 1) + (if i + 1 < h then j else 0) + min j (w - 1)"

text \<open>The number of maximal runs among the first \<open>n\<close> positions: the positions where a run starts.\<close>

definition num_runs :: "(nat \<Rightarrow> bool) \<Rightarrow> nat \<Rightarrow> nat" where
  "num_runs f n = length (filter (\<lambda>i. f i \<and> (i = 0 \<or> \<not> f (i - 1))) [0..<n])"

text \<open>The quads of one portal's span, row by row, and the quad of one cost cell.\<close>

definition portal_quads :: "'w portal \<Rightarrow> quad list" where
  "portal_quads port =
     concat (map (\<lambda>row. map (\<lambda>col. (row, col, (1, 1, 0)))
                   [min (c (fst (endpoints port))) (c (snd (endpoints port))) ..
                    max (c (fst (endpoints port))) (c (snd (endpoints port)))])
        [min (r (fst (endpoints port))) (r (snd (endpoints port))) ..
         max (r (fst (endpoints port))) (r (snd (endpoints port)))])"

definition cell_quad :: "'w nav_chunk \<Rightarrow> nat \<Rightarrow> quad" where
  "cell_quad ch k =
     (int (k div 64), int (k mod 64), if cost_base ch k = COST_IMPASSABLE then (1, 0, 0) else (0, 1, 0))"

text \<open>
  The midpoint cell of a portal: the componentwise average of its endpoints, rounded toward
  zero. It is what the source computes for a portal whose two sums of endpoint coordinates
  are \<^verbatim>\<open>int\<close>s, which \<open>midpoint_fits\<close> says.
\<close>

definition midpoint :: "'w portal \<Rightarrow> coord" where
  "midpoint port =
     \<lparr>r = c_div (r (fst (endpoints port)) + r (snd (endpoints port))) 2,
      c = c_div (c (fst (endpoints port)) + c (snd (endpoints port))) 2\<rparr>"

definition midpoint_fits :: "'w portal \<Rightarrow> bool" where
  "midpoint_fits port \<longleftrightarrow>
     - (2 ^ 31) \<le> r (fst (endpoints port)) + r (snd (endpoints port)) \<and>
     r (fst (endpoints port)) + r (snd (endpoints port)) < 2 ^ 31 \<and>
     - (2 ^ 31) \<le> c (fst (endpoints port)) + c (snd (endpoints port)) \<and>
     c (fst (endpoints port)) + c (snd (endpoints port)) < 2 ^ 31"

text \<open>
  The edges that the claim expects from portal \<open>i\<close>: to portal \<open>j\<close>, none if \<open>j\<close> is \<open>i\<close> itself
  or the pathfinder reports no path between the midpoints, and else one edge with the
  cost it returns; and to the first \<open>n\<close> portals, in their order.
\<close>

definition edge_to :: "'w grid_path \<Rightarrow> nat \<Rightarrow> 'w nav_chunk \<Rightarrow> nat \<Rightarrow> nat \<Rightarrow> 'w edge list" where
  "edge_to AStar_GridPath chunk_ptr ch i j =
     (if i = j then []
      else case AStar_GridPath (midpoint (portals ch i)) (midpoint (portals ch j)) (cost_base ch) of
             None \<Rightarrow> []
           | Some path_cost \<Rightarrow> [\<lparr>neighbour = PortalAt chunk_ptr j, cost = path_cost\<rparr>])"

definition edges_to :: "'w grid_path \<Rightarrow> nat \<Rightarrow> 'w nav_chunk \<Rightarrow> nat \<Rightarrow> nat \<Rightarrow> 'w edge list" where
  "edges_to AStar_GridPath chunk_ptr ch i n = concat (map (edge_to AStar_GridPath chunk_ptr ch i) [0..<n])"

text \<open>A portal with edges appended to its edge array.\<close>

definition add_edges :: "'w portal \<Rightarrow> 'w edge list \<Rightarrow> 'w portal" where
  "add_edges port es =
     port\<lparr>edges := (\<lambda>m. if num_neighbours port \<le> m \<and> m < num_neighbours port + length es
                         then es ! (m - num_neighbours port) else edges port m),
          num_neighbours := num_neighbours port + length es\<rparr>"

text \<open>The chunk when the linker has finished portals \<open>0, \<dots>, i - 1\<close> and has paired portal \<open>i\<close> with the first \<open>j\<close> portals.\<close>

definition linker_state :: "'w grid_path \<Rightarrow> nat \<Rightarrow> 'w nav_chunk \<Rightarrow> nat \<Rightarrow> nat \<Rightarrow> 'w nav_chunk" where
  "linker_state AStar_GridPath chunk_ptr ch i j =
     ch\<lparr>portals := (\<lambda>k.
        if k < i then add_edges (portals ch k) (edges_to AStar_GridPath chunk_ptr ch k (num_portals ch))
        else if k = i then add_edges (portals ch k) (edges_to AStar_GridPath chunk_ptr ch k j)
        else portals ch k)\<rparr>"

section \<open>What portal discovery maintains\<close>

text \<open>
  The chunk that lies across edge \<open>t\<close> of chunk \<open>k\<close> on a map \<open>w\<close> chunks wide and \<open>h\<close> high;
  \<open>None\<close> when the edge is on the boundary of the world.
\<close>

definition neighbour_across :: "nat \<Rightarrow> nat \<Rightarrow> nat \<Rightarrow> edge_type \<Rightarrow> nat option" where
  "neighbour_across w h k t =
     (case t of
        EDGE_TOP \<Rightarrow> if 0 < k div w then Some (k - w) else None
      | EDGE_BOT \<Rightarrow> if k div w + 1 < h then Some (k + w) else None
      | EDGE_LEFT \<Rightarrow> if 0 < k mod w then Some (k - 1) else None
      | EDGE_RIGHT \<Rightarrow> if k mod w + 1 < w then Some (k + 1) else None)"

definition opposite :: "edge_type \<Rightarrow> edge_type" where
  "opposite t = (case t of EDGE_TOP \<Rightarrow> EDGE_BOT | EDGE_BOT \<Rightarrow> EDGE_TOP
                         | EDGE_LEFT \<Rightarrow> EDGE_RIGHT | EDGE_RIGHT \<Rightarrow> EDGE_LEFT)"

definition all_edges :: "edge_type list" where
  "all_edges = [EDGE_BOT, EDGE_LEFT, EDGE_RIGHT, EDGE_TOP]"

text \<open>
  The coordinate of a cell that varies along edge \<open>t\<close> and the one that is fixed on it:
  column and row on a top or bottom edge, row and column on a left or right edge.
\<close>

definition along :: "edge_type \<Rightarrow> coord \<Rightarrow> int" where
  "along t p = (if t = EDGE_TOP \<or> t = EDGE_BOT then c p else r p)"

definition across :: "edge_type \<Rightarrow> coord \<Rightarrow> int" where
  "across t p = (if t = EDGE_TOP \<or> t = EDGE_BOT then r p else c p)"

definition on_edge :: "edge_type \<Rightarrow> coord \<Rightarrow> bool" where
  "on_edge t p \<longleftrightarrow> across t p = fixed_of t \<and> 0 \<le> along t p \<and> along t p < 64"

definition cell_of :: "coord \<Rightarrow> nat" where
  "cell_of p = cell (nat (r p)) (nat (c p))"

text \<open>
  A portal spans edge \<open>t\<close>: both endpoints lie on the edge, so in its one row or column, and
  the second is not before the first.
\<close>

definition span_on_edge :: "edge_type \<Rightarrow> 'w portal \<Rightarrow> bool" where
  "span_on_edge t port \<longleftrightarrow>
     on_edge t (fst (endpoints port)) \<and> on_edge t (snd (endpoints port)) \<and>
     along t (fst (endpoints port)) \<le> along t (snd (endpoints port))"

text \<open>
  Every position of the portal's span is crossable: the cell of the chunk's own grid \<open>g\<close> on
  edge \<open>t\<close> and the cell of the neighbour's grid \<open>g'\<close> that faces it are both passable.
\<close>

definition span_crossable :: "(nat \<Rightarrow> 8 word) \<Rightarrow> (nat \<Rightarrow> 8 word) \<Rightarrow> edge_type \<Rightarrow> 'w portal \<Rightarrow> bool" where
  "span_crossable g g' t port \<longleftrightarrow>
     (\<forall>i \<in> {nat (along t (fst (endpoints port))) .. nat (along t (snd (endpoints port)))}.
        g (cell_of (edge_pt t i)) \<noteq> COST_IMPASSABLE \<and>
        g' (cell_of (edge_pt (opposite t) i)) \<noteq> COST_IMPASSABLE)"

text \<open>Portal \<open>m\<close> of chunk \<open>k\<close> is a crossable span of the chunk's edge \<open>t\<close>, an edge with a chunk across it.\<close>

definition portal_span :: "'w nav_private \<Rightarrow> nat \<Rightarrow> nat \<Rightarrow> edge_type \<Rightarrow> bool" where
  "portal_span priv k m t \<longleftrightarrow>
     (case neighbour_across (width priv) (height priv) k t of
        None \<Rightarrow> False
      | Some n \<Rightarrow>
          span_on_edge t (portals (chunks priv k) m) \<and>
          span_crossable (cost_base (chunks priv k)) (cost_base (chunks priv n)) t (portals (chunks priv k) m))"

text \<open>
  Portal \<open>m\<close> of chunk \<open>k\<close> lies on the chunk's edge \<open>t\<close>, there is a chunk across that edge,
  \<^verbatim>\<open>connected\<close> points to a recorded portal of that chunk, which lies on the facing edge and
  whose \<^verbatim>\<open>connected\<close> points back.
\<close>

definition portal_link :: "'w nav_private \<Rightarrow> nat \<Rightarrow> nat \<Rightarrow> edge_type \<Rightarrow> bool" where
  "portal_link priv k m t \<longleftrightarrow>
     (case neighbour_across (width priv) (height priv) k t of
        None \<Rightarrow> False
      | Some n \<Rightarrow>
          (case connected (portals (chunks priv k) m) of
             NULL \<Rightarrow> False
           | PortalAt n' m' \<Rightarrow>
               n' = n \<and> m' < num_portals (chunks priv n) \<and>
               connected (portals (chunks priv n) m') = PortalAt k m \<and>
               span_on_edge t (portals (chunks priv k) m) \<and>
               span_on_edge (opposite t) (portals (chunks priv n) m') \<and>
               endpoints (portals (chunks priv n) m') =
                 (edge_pt (opposite t) (nat (along t (fst (endpoints (portals (chunks priv k) m))))),
                  edge_pt (opposite t) (nat (along t (snd (endpoints (portals (chunks priv k) m))))))))"

text \<open>What portal discovery maintains for every portal it has recorded.\<close>

definition portal_ok :: "'w nav_private \<Rightarrow> nat \<Rightarrow> nat \<Rightarrow> edge_type \<Rightarrow> bool" where
  "portal_ok priv k m t \<longleftrightarrow>
     portal_span priv k m t \<and> portal_link priv k m t \<and>
     num_neighbours (portals (chunks priv k) m) = 0 \<and>
     chunk (portals (chunks priv k) m) = \<lparr>r = int (k div width priv), c = int (k mod width priv)\<rparr>"

definition discovered :: "'w nav_private \<Rightarrow> bool" where
  "discovered priv \<longleftrightarrow>
     (\<forall>k < width priv * height priv.
        num_portals (chunks priv k) \<le> MAX_PORTALS_PER_CHUNK \<and>
        (\<forall>m < num_portals (chunks priv k). \<exists>t. portal_ok priv k m t))"

section \<open>Closed forms of the loops of the navigation store\<close>

text \<open>The tile whose block holds cost cell \<open>k\<close>, by its row and column among the chunk's tiles.\<close>

definition tile_row :: "nat \<Rightarrow> nat \<Rightarrow> nat" where
  "tile_row chunk_h k = (k div 64) div (FIELD_RES_R div chunk_h)"

definition tile_col :: "nat \<Rightarrow> nat \<Rightarrow> nat" where
  "tile_col chunk_w k = (k mod 64) div (FIELD_RES_C div chunk_w)"

definition tile_cost :: "int \<Rightarrow> tile \<Rightarrow> 8 word" where
  "tile_cost TILETYPE_FLAT tile = (if n_tile_pathable TILETYPE_FLAT tile then 1 else COST_IMPASSABLE)"

text \<open>
  The chunk when the tile loops of \<^verbatim>\<open>N_BuildForMapData\<close> have handled the tile rows above
  \<open>tile_r\<close> and the first \<open>tile_c\<close> tiles of row \<open>tile_r\<close>.
\<close>

definition tiles_done ::
  "int \<Rightarrow> nat \<Rightarrow> nat \<Rightarrow> (nat \<Rightarrow> tile) \<Rightarrow> nat \<Rightarrow> nat \<Rightarrow> 'w nav_chunk \<Rightarrow> 'w nav_chunk" where
  "tiles_done TILETYPE_FLAT chunk_w chunk_h curr_tiles tile_r tile_c ch =
     ch\<lparr>cost_base := (\<lambda>k.
        if tile_col chunk_w k < chunk_w \<and>
           (tile_row chunk_h k < tile_r \<or> (tile_row chunk_h k = tile_r \<and> tile_col chunk_w k < tile_c))
        then tile_cost TILETYPE_FLAT (curr_tiles (tile_row chunk_h k * chunk_w + tile_col chunk_w k))
        else cost_base ch k)\<rparr>"

text \<open>The array of chunks when the first loops of \<^verbatim>\<open>N_BuildForMapData\<close> have handled the first \<open>n\<close> chunks.\<close>

definition cost_fields_done ::
  "int \<Rightarrow> nat \<Rightarrow> nat \<Rightarrow> (nat \<Rightarrow> nat \<Rightarrow> tile) \<Rightarrow> 'w nav_private \<Rightarrow> nat \<Rightarrow> 'w nav_private" where
  "cost_fields_done TILETYPE_FLAT chunk_w chunk_h chunk_tiles ret n =
     ret\<lparr>chunks := (\<lambda>k.
        if k < n
        then tiles_done TILETYPE_FLAT chunk_w chunk_h (chunk_tiles k) chunk_h 0 ((chunks ret k)\<lparr>num_portals := 0\<rparr>)
        else chunks ret k)\<rparr>"

text \<open>The array of chunks when the last loops of \<^verbatim>\<open>N_BuildForMapData\<close> have handled the first \<open>n\<close> chunks.\<close>

definition linked_all :: "'w grid_path \<Rightarrow> 'w nav_private \<Rightarrow> nat \<Rightarrow> 'w nav_private" where
  "linked_all AStar_GridPath p n =
     p\<lparr>chunks := (\<lambda>k.
        if k < n then linker_state AStar_GridPath k (chunks p k) (num_portals (chunks p k)) 0
        else chunks p k)\<rparr>"

section \<open>Stores that agree\<close>

text \<open>
  Two chunks agree on what a run has written: the cells of the cost grid, the portal count
  and the recorded portals. Two stores agree when their dimensions and their chunks do.
\<close>

definition same_chunk :: "'w nav_chunk \<Rightarrow> 'w nav_chunk \<Rightarrow> bool" where
  "same_chunk ch ch' \<longleftrightarrow>
     (\<forall>k < FIELD_RES_R * FIELD_RES_C. cost_base ch k = cost_base ch' k) \<and>
     num_portals ch = num_portals ch' \<and>
     (\<forall>m < num_portals ch. portals ch m = portals ch' m)"

definition same_store :: "'w nav_private \<Rightarrow> 'w nav_private \<Rightarrow> bool" where
  "same_store s s' \<longleftrightarrow>
     width s = width s' \<and> height s = height s' \<and>
     (\<forall>k < width s * height s. same_chunk (chunks s k) (chunks s' k))"

text \<open>The pathfinder reads no more of the grid it is handed than the cells of the grid.\<close>

definition reads_grid_only :: "'w grid_path \<Rightarrow> bool" where
  "reads_grid_only AStar_GridPath \<longleftrightarrow>
     (\<forall>a b g g'. (\<forall>k < FIELD_RES_R * FIELD_RES_C. g k = g' k) \<longrightarrow>
                  AStar_GridPath a b g = AStar_GridPath a b g')"

text \<open>Two stores agree and no chunk of the first holds more than \<^verbatim>\<open>MAX_PORTALS_PER_CHUNK\<close> portals.\<close>

definition same_capped :: "'w nav_private \<Rightarrow> 'w nav_private \<Rightarrow> bool" where
  "same_capped p q \<longleftrightarrow>
     same_store p q \<and> (\<forall>k < width p * height p. num_portals (chunks p k) \<le> MAX_PORTALS_PER_CHUNK)"

text \<open>Two states of the loops of \<^verbatim>\<open>n_create_portals\<close> on a map \<open>w\<close> wide and \<open>h\<close> high that agree.\<close>

definition same_progress ::
  "nat \<Rightarrow> nat \<Rightarrow> 'w nav_private \<times> nat \<times> link_call list \<Rightarrow> 'w nav_private \<times> nat \<times> link_call list \<Rightarrow> bool" where
  "same_progress w h s t \<longleftrightarrow>
     same_capped (fst s) (fst t) \<and> width (fst s) = w \<and> height (fst s) = h \<and> snd s = snd t"

section \<open>Concrete inputs\<close>

text \<open>Values at which the theorems below are instantiated.\<close>

definition blank_portal :: "real portal" where
  "blank_portal = \<lparr>chunk = \<lparr>r = 0, c = 0\<rparr>, endpoints = (\<lparr>r = 0, c = 0\<rparr>, \<lparr>r = 0, c = 0\<rparr>),
     num_neighbours = 0, edges = (\<lambda>_. \<lparr>neighbour = NULL, cost = 0\<rparr>), connected = NULL\<rparr>"

definition blank_chunk :: "real nav_chunk" where
  "blank_chunk = \<lparr>num_portals = 0, portals = (\<lambda>_. blank_portal), cost_base = (\<lambda>_. 0)\<rparr>"

definition open_chunk :: "real nav_chunk" where
  "open_chunk = \<lparr>num_portals = 0, portals = (\<lambda>_. blank_portal), cost_base = (\<lambda>_. 1)\<rparr>"

definition map_2x1 :: "real nav_private" where
  "map_2x1 = \<lparr>width = 2, height = 1, chunks = (\<lambda>_. open_chunk)\<rparr>"

definition corner_chunk :: "real nav_chunk" where
  "corner_chunk = \<lparr>num_portals = 0, portals = (\<lambda>_. blank_portal),
     cost_base = (\<lambda>k. if k = cell 63 63 \<or> k = cell 0 63 then 1 else COST_IMPASSABLE)\<rparr>"

definition comb_grid :: "nat \<Rightarrow> 8 word" where
  "comb_grid k =
     (if (k div 64 = 0 \<or> k div 64 = 63) \<and> even (k mod 64) then 1
      else if (k mod 64 = 0 \<or> k mod 64 = 63) \<and> even (k div 64) then 1
      else COST_IMPASSABLE)"

definition comb_chunk :: "real nav_chunk" where
  "comb_chunk = \<lparr>num_portals = 0, portals = (\<lambda>_. blank_portal), cost_base = comb_grid\<rparr>"

definition comb_map :: "real nav_private" where
  "comb_map = \<lparr>width = 3, height = 2, chunks = (\<lambda>_. comb_chunk)\<rparr>"

definition overlay_chunk :: "real nav_chunk" where
  "overlay_chunk =
     \<lparr>num_portals = 1,
      portals = (\<lambda>_. \<lparr>chunk = \<lparr>r = 0, c = 0\<rparr>, endpoints = (\<lparr>r = 0, c = 63\<rparr>, \<lparr>r = 1, c = 63\<rparr>),
                        num_neighbours = 0, edges = (\<lambda>_. \<lparr>neighbour = NULL, cost = 0\<rparr>),
                        connected = PortalAt 1 0\<rparr>),
      cost_base = (\<lambda>k. if k = cell 0 63 \<or> k = cell 1 63 then 1 else COST_IMPASSABLE)\<rparr>"

definition overlay_map :: "real nav_private" where
  "overlay_map = \<lparr>width = 2, height = 1, chunks = (\<lambda>_. overlay_chunk)\<rparr>"

text \<open>
  A chunk with three portals and a pathfinder that finds no path to a cell of row 0 and
  otherwise returns the Manhattan distance.
\<close>

definition linker_chunk :: "real nav_chunk" where
  "linker_chunk =
     \<lparr>num_portals = 3,
      portals = (\<lambda>k. blank_portal\<lparr>endpoints :=
                   (if k = 0 then (\<lparr>r = 2, c = 63\<rparr>, \<lparr>r = 5, c = 63\<rparr>)
                    else if k = 1 then (\<lparr>r = 63, c = 10\<rparr>, \<lparr>r = 63, c = 20\<rparr>)
                    else (\<lparr>r = 0, c = 4\<rparr>, \<lparr>r = 0, c = 8\<rparr>))\<rparr>),
      cost_base = (\<lambda>_. 1)\<rparr>"

definition manhattan :: "real grid_path" where
  "manhattan a b grid =
     (if r b = 0 then None else Some (real_of_int (\<bar>r a - r b\<bar> + \<bar>c a - c b\<bar>)))"

text \<open>
  A tile that is pathable and flat, a map whose tiles are all such, and a block as \<^verbatim>\<open>malloc\<close>
  may return it, with contents that no run has written.
\<close>

definition flat_tile :: tile where
  "flat_tile = \<lparr>pathable = True, type = 0, ramp_height = 0\<rparr>"

definition open_tiles :: "nat \<Rightarrow> nat \<Rightarrow> tile" where
  "open_tiles k t = flat_tile"

definition junk_store :: "real nav_private" where
  "junk_store = \<lparr>width = 7, height = 9,
     chunks = (\<lambda>_. \<lparr>num_portals = 5, portals = (\<lambda>_. blank_portal), cost_base = (\<lambda>_. COST_IMPASSABLE)\<rparr>)\<rparr>"

text \<open>The tiles of a comb chunk, one tile to a cost cell: tile \<open>t\<close> is pathable where the comb grid is passable.\<close>

definition comb_tiles :: "nat \<Rightarrow> nat \<Rightarrow> tile" where
  "comb_tiles k t = \<lparr>pathable = (comb_grid t = 1), type = 0, ramp_height = 0\<rparr>"

section \<open>Loop rules\<close>

lemma seq_Inr [simp]: "seq (Inr x) f = f x"
  by (simp add: seq_def)

lemma seq_Inl [simp]: "seq (Inl e) f = Inl e"
  by (simp add: seq_def)

lemma seq_eq_Inr: "seq m f = Inr y \<longleftrightarrow> (\<exists>x. m = Inr x \<and> f x = Inr y)"
  by (cases m) simp_all

text \<open>A loop whose state after \<open>j\<close> iterations is known in closed form.\<close>

lemma for_upto_closed:
  assumes "\<And>j. j < n \<Longrightarrow> body j (F j) = Inr (F (Suc j))"
  shows "for_upto n body (F 0) = Inr (F n)"
  using assms by (induction n) simp_all

text \<open>A loop with an invariant that every iteration re-establishes without error.\<close>

lemma for_upto_total:
  assumes "I 0 s"
    and "\<And>j t. j < n \<Longrightarrow> I j t \<Longrightarrow> \<exists>t'. body j t = Inr t' \<and> I (Suc j) t'"
  shows "\<exists>t'. for_upto n body s = Inr t' \<and> I n t'"
  using assms
proof (induction n)
  case 0
  then show ?case by simp
next
  case (Suc n)
  then obtain t where t: "for_upto n body s = Inr t" "I n t"
    by (metis less_Suc_eq)
  with Suc.prems(2) [of n t] show ?case by auto
qed

text \<open>Partial correctness: the invariant holds whenever the loop ends without error.\<close>

lemma for_upto_partial:
  assumes "for_upto n body s = Inr s'" and "I 0 s"
    and "\<And>j t t'. j < n \<Longrightarrow> I j t \<Longrightarrow> body j t = Inr t' \<Longrightarrow> I (Suc j) t'"
  shows "I n s'"
  using assms
proof (induction n arbitrary: s')
  case 0
  then show ?case by simp
next
  case (Suc n)
  from Suc.prems(1) obtain t where t: "for_upto n body s = Inr t" "body n t = Inr s'"
    by (auto simp: seq_eq_Inr)
  have "I n t"
    using Suc.IH [OF t(1) Suc.prems(2)] Suc.prems(3) by (metis less_Suc_eq)
  with t(2) Suc.prems(3) [of n t s'] show ?case by simp
qed

section \<open>Cost field builder: properties\<close>

lemma cell_div_mod: "col < FIELD_RES_C \<Longrightarrow> cell row col div 64 = row \<and> cell row col mod 64 = col"
  by (simp add: cell_def)

lemma cell_eq_iff:
  "col < FIELD_RES_C \<Longrightarrow> k = cell row col \<longleftrightarrow> k div 64 = row \<and> k mod 64 = col"
  by (auto simp: cell_def)

lemma in_block_empty: "\<not> in_block r_base c_base 0 0 w k"
  by (auto simp: in_block_def)

lemma fill_block_empty: "fill_block r_base c_base 0 0 w v ch = ch"
  by (simp add: fill_block_def in_block_empty)

lemma in_block_row_done:
  "in_block r_base c_base nr w w k = in_block r_base c_base (Suc nr) 0 w k"
  unfolding in_block_def by (cases "k div 64 = r_base + nr") auto

lemma in_block_step:
  assumes "c_base + nc < FIELD_RES_C"
  shows "in_block r_base c_base nr (Suc nc) w k \<longleftrightarrow>
         k = cell (r_base + nr) (c_base + nc) \<or> in_block r_base c_base nr nc w k"
proof -
  have "k = cell (r_base + nr) (c_base + nc) \<longleftrightarrow> k div 64 = r_base + nr \<and> k mod 64 = c_base + nc"
    using assms by (rule cell_eq_iff)
  then show ?thesis
    unfolding in_block_def by (cases "k div 64 = r_base + nr") auto
qed

lemma fill_block_row_done:
  "fill_block r_base c_base nr w w v ch = fill_block r_base c_base (Suc nr) 0 w v ch"
  by (simp add: fill_block_def in_block_row_done)

lemma fill_block_step:
  assumes "c_base + nc < FIELD_RES_C"
  shows "(fill_block r_base c_base nr nc w v ch)
           \<lparr>cost_base := (cost_base (fill_block r_base c_base nr nc w v ch))
              (cell (r_base + nr) (c_base + nc) := v)\<rparr>
         = fill_block r_base c_base nr (Suc nc) w v ch"
proof -
  have "(\<lambda>k. if in_block r_base c_base nr nc w k then v else cost_base ch k)
          (cell (r_base + nr) (c_base + nc) := v)
        = (\<lambda>k. if in_block r_base c_base nr (Suc nc) w k then v else cost_base ch k)"
    by (rule ext) (simp add: in_block_step [OF assms])
  then show ?thesis by (simp add: fill_block_def)
qed

lemma set_cost_inner_loop:
  assumes "r_base + nr < FIELD_RES_R" and "c_base + w \<le> FIELD_RES_C"
  shows "for_upto w (\<lambda>c ch.
           if r_base + nr < FIELD_RES_R \<and> c_base + c < FIELD_RES_C
           then Inr (ch\<lparr>cost_base := (cost_base ch)(cell (r_base + nr) (c_base + c) := v)\<rparr>)
           else Inl OutOfBounds) (fill_block r_base c_base nr 0 w v ch)
         = Inr (fill_block r_base c_base (Suc nr) 0 w v ch)"
proof -
  have "for_upto w (\<lambda>c ch.
           if r_base + nr < FIELD_RES_R \<and> c_base + c < FIELD_RES_C
           then Inr (ch\<lparr>cost_base := (cost_base ch)(cell (r_base + nr) (c_base + c) := v)\<rparr>)
           else Inl OutOfBounds) (fill_block r_base c_base nr 0 w v ch)
        = Inr (fill_block r_base c_base nr w w v ch)"
    using assms by (intro for_upto_closed [where F = "\<lambda>j. fill_block r_base c_base nr j w v ch"])
      (simp add: fill_block_step)
  then show ?thesis by (simp add: fill_block_row_done)
qed

lemma block_rows_fit:
  assumes "tile_r < chunk_h"
  shows "tile_r * (n div chunk_h) + n div chunk_h \<le> (n::nat)"
proof -
  have "Suc tile_r * (n div chunk_h) \<le> chunk_h * (n div chunk_h)"
    using assms by (intro mult_le_mono1) simp
  also have "\<dots> \<le> n"
    by (rule times_div_less_eq_dividend)
  finally show ?thesis by simp
qed

lemma set_cost_loops:
  assumes "tile_r < chunk_h" and "tile_c < chunk_w"
    and "fr = FIELD_RES_R div chunk_h" and "fc = FIELD_RES_C div chunk_w"
  shows "for_upto fr (\<lambda>r. for_upto fc (\<lambda>c ch.
           if tile_r * fr + r < FIELD_RES_R \<and> tile_c * fc + c < FIELD_RES_C
           then Inr (ch\<lparr>cost_base := (cost_base ch)(cell (tile_r * fr + r) (tile_c * fc + c) := v)\<rparr>)
           else Inl OutOfBounds)) ch
        = Inr (fill_block (tile_r * fr) (tile_c * fc) fr 0 fc v ch)"
proof -
  have rows: "tile_r * fr + fr \<le> FIELD_RES_R"
    unfolding assms(3) by (rule block_rows_fit [OF assms(1)])
  have cols: "tile_c * fc + fc \<le> FIELD_RES_C"
    unfolding assms(4) by (rule block_rows_fit [OF assms(2)])
  have "for_upto fr (\<lambda>r. for_upto fc (\<lambda>c ch.
           if tile_r * fr + r < FIELD_RES_R \<and> tile_c * fc + c < FIELD_RES_C
           then Inr (ch\<lparr>cost_base := (cost_base ch)(cell (tile_r * fr + r) (tile_c * fc + c) := v)\<rparr>)
           else Inl OutOfBounds)) (fill_block (tile_r * fr) (tile_c * fc) 0 0 fc v ch)
        = Inr (fill_block (tile_r * fr) (tile_c * fc) fr 0 fc v ch)"
  proof (rule for_upto_closed [where F = "\<lambda>j. fill_block (tile_r * fr) (tile_c * fc) j 0 fc v ch"])
    fix j assume "j < fr"
    with rows have "tile_r * fr + j < FIELD_RES_R" by linarith
    from set_cost_inner_loop [OF this cols]
    show "for_upto fc (\<lambda>c ch.
           if tile_r * fr + j < FIELD_RES_R \<and> tile_c * fc + c < FIELD_RES_C
           then Inr (ch\<lparr>cost_base := (cost_base ch)(cell (tile_r * fr + j) (tile_c * fc + c) := v)\<rparr>)
           else Inl OutOfBounds) (fill_block (tile_r * fr) (tile_c * fc) j 0 fc v ch)
        = Inr (fill_block (tile_r * fr) (tile_c * fc) (Suc j) 0 fc v ch)" .
  qed
  then show ?thesis by (simp only: fill_block_empty)
qed

text \<open>
  The closed form of \<^verbatim>\<open>n_set_cost_for_tile\<close> for a tile inside the chunk: the tile's block
  is filled with the tile's cost and nothing else changes.
\<close>

lemma n_set_cost_for_tile_closed:
  assumes "tile_r < chunk_h" and "tile_c < chunk_w"
  shows "n_set_cost_for_tile TILETYPE_FLAT ch chunk_w chunk_h tile_r tile_c tile =
         Inr (fill_block (tile_r * (FIELD_RES_R div chunk_h)) (tile_c * (FIELD_RES_C div chunk_w))
                (FIELD_RES_R div chunk_h) 0 (FIELD_RES_C div chunk_w)
                (if n_tile_pathable TILETYPE_FLAT tile then 1 else COST_IMPASSABLE) ch)"
proof -
  have nz: "\<not> (chunk_h = 0 \<or> chunk_w = 0)"
    using assms by auto
  show ?thesis
    unfolding n_set_cost_for_tile_def Let_def if_not_P [OF nz]
    by (rule set_cost_loops [OF assms refl refl])
qed

lemma in_block_full:
  assumes "i < nr" "j < w" "c_base + w \<le> FIELD_RES_C"
  shows "in_block r_base c_base nr 0 w (cell (r_base + i) (c_base + j))"
proof -
  have "c_base + j < FIELD_RES_C" using assms by linarith
  from cell_div_mod [OF this, of "r_base + i"] show ?thesis
    using assms by (simp add: in_block_def)
qed

lemma n_tile_pathable_flat0:
  "n_tile_pathable 0 tile \<longleftrightarrow> \<not> (\<not> pathable tile \<or> (type tile \<noteq> 0 \<and> ramp_height tile > 1))"
  by (simp add: n_tile_pathable_def)

text \<open>
  Claim C1. For a tile of the chunk, \<^verbatim>\<open>n_set_cost_for_tile\<close> returns, and every cost cell of
  the tile's block holds \<^verbatim>\<open>COST_IMPASSABLE\<close> if the tile is not pathable or its type is not
  flat and its ramp height exceeds 1, and holds 1 otherwise. The flat enumerator is the
  zero of \<^verbatim>\<open>enum tiletype\<close>.
\<close>

theorem n_set_cost_for_tile_block:
  assumes "TILETYPE_FLAT = 0" and "tile_r < chunk_h" and "tile_c < chunk_w"
  shows "\<exists>ch'. n_set_cost_for_tile TILETYPE_FLAT ch chunk_w chunk_h tile_r tile_c tile = Inr ch' \<and>
           (\<forall>i < FIELD_RES_R div chunk_h. \<forall>j < FIELD_RES_C div chunk_w.
              cost_base ch' (cell (tile_r * (FIELD_RES_R div chunk_h) + i)
                                  (tile_c * (FIELD_RES_C div chunk_w) + j)) =
                (if \<not> pathable tile \<or> (type tile \<noteq> TILETYPE_FLAT \<and> ramp_height tile > 1)
                 then COST_IMPASSABLE else 1))"
proof -
  have cols: "tile_c * (FIELD_RES_C div chunk_w) + FIELD_RES_C div chunk_w \<le> FIELD_RES_C"
    by (rule block_rows_fit [OF assms(3)])
  show ?thesis
    unfolding n_set_cost_for_tile_closed [OF assms(2,3)] assms(1)
    by (auto simp: fill_block_def in_block_full [OF _ _ cols] n_tile_pathable_flat0)
qed

theorem n_set_cost_for_tile_block_witness:
  "\<exists>ch'. n_set_cost_for_tile 0 blank_chunk 32 32 3 5 \<lparr>pathable = True, type = 2, ramp_height = 3\<rparr> = Inr ch' \<and>
         cost_base ch' (cell 6 10) = COST_IMPASSABLE \<and> cost_base ch' (cell 7 11) = COST_IMPASSABLE"
proof -
  have h: "(0::int) = 0" "(3::nat) < 32" "(5::nat) < 32" by simp_all
  from n_set_cost_for_tile_block [OF h, of blank_chunk "\<lparr>pathable = True, type = 2, ramp_height = 3\<rparr>"]
  obtain ch' where ch': "n_set_cost_for_tile 0 blank_chunk 32 32 3 5 \<lparr>pathable = True, type = 2, ramp_height = 3\<rparr> = Inr ch'"
    and cells: "\<forall>i<2. \<forall>j<2. cost_base ch' (cell (6 + i) (10 + j)) = COST_IMPASSABLE"
    by auto
  from cells [rule_format, of 0 0] cells [rule_format, of 1 1]
  have "cost_base ch' (cell 6 10) = COST_IMPASSABLE" and "cost_base ch' (cell 7 11) = COST_IMPASSABLE"
    by simp_all
  with ch' show ?thesis by simp
qed

section \<open>Portal discovery: the scan in closed form\<close>

lemma fixed_idx_eq: "fixed_idx t = Inr (fixed_of t)"
  by (cases t) (simp_all add: fixed_idx_def fixed_of_def)

lemma edge_coord_eq: "edge_coord t (fixed_of t) (int i) = Inr (edge_pt t i)"
  by (cases t) (simp_all add: edge_coord_def fixed_of_def edge_pt_def)

lemma edge_types_assert_True: "edge_types_assert a_type b_type"
  by (cases a_type; cases b_type) (simp_all add: edge_types_assert_def)

lemma horizontal_iff: "edge_bits t AND 9 \<noteq> 0 \<longleftrightarrow> t = EDGE_BOT \<or> t = EDGE_TOP"
  by (cases t) simp_all

lemma linked_chunk_sel [simp]:
  "num_portals (linked_chunk a t cc p np st) = num_portals a + length (fst st)"
  "cost_base (linked_chunk a t cc p np st) = cost_base a"
  by (simp_all add: linked_chunk_def)

lemma linked_portals_start: "linked_portals ps n0 t cc p np [] None = ps"
  by (rule ext) (auto simp: linked_portals_def)

lemma linked_chunk_start [simp]: "linked_chunk a t cc p np ([], None) = a"
  by (simp add: linked_chunk_def linked_portals_start)

lemma linked_portals_open:
  "(linked_portals ps n0 t cc p np spans None)
     (n0 + length spans := new_portal cc (edge_pt t i) (PortalAt p (np + length spans)))
   = linked_portals ps n0 t cc p np spans (Some i)"
  by (rule ext) (simp add: linked_portals_def)

lemma linked_chunk_open:
  "(linked_chunk a t cc p np (spans, None))
     \<lparr>portals := (portals (linked_chunk a t cc p np (spans, None)))
        (num_portals a + length spans := new_portal cc (edge_pt t i) (PortalAt p (np + length spans)))\<rparr>
   = linked_chunk a t cc p np (spans, Some i)"
  by (simp add: linked_chunk_def linked_portals_open)

lemma new_portal_close:
  "(new_portal cc (edge_pt t s) conn)
     \<lparr>endpoints := (fst (endpoints (new_portal cc (edge_pt t s) conn)), edge_pt t e)\<rparr>
   = span_portal cc t conn (s, e)"
  by (simp add: new_portal_def span_portal_def)

lemma linked_portals_close:
  "(linked_portals ps n0 t cc p np spans (Some s))
     (n0 + length spans :=
        (linked_portals ps n0 t cc p np spans (Some s) (n0 + length spans))
          \<lparr>endpoints := (fst (endpoints (linked_portals ps n0 t cc p np spans (Some s) (n0 + length spans))),
                         edge_pt t e)\<rparr>)
   = linked_portals ps n0 t cc p np (spans @ [(s, e)]) None"
proof (rule ext)
  fix k
  have at: "linked_portals ps n0 t cc p np spans (Some s) (n0 + length spans)
            = new_portal cc (edge_pt t s) (PortalAt p (np + length spans))"
    by (simp add: linked_portals_def)
  show "((linked_portals ps n0 t cc p np spans (Some s))
     (n0 + length spans :=
        (linked_portals ps n0 t cc p np spans (Some s) (n0 + length spans))
          \<lparr>endpoints := (fst (endpoints (linked_portals ps n0 t cc p np spans (Some s) (n0 + length spans))),
                         edge_pt t e)\<rparr>)) k
   = linked_portals ps n0 t cc p np (spans @ [(s, e)]) None k"
    unfolding at new_portal_close
    by (auto simp: linked_portals_def nth_append)
qed

lemma linked_chunk_close:
  "(linked_chunk a t cc p np (spans, Some s))
     \<lparr>portals := (portals (linked_chunk a t cc p np (spans, Some s)))
        (num_portals a + length spans :=
           (portals (linked_chunk a t cc p np (spans, Some s)) (num_portals a + length spans))
             \<lparr>endpoints := (fst (endpoints (portals (linked_chunk a t cc p np (spans, Some s))
                                              (num_portals a + length spans))), edge_pt t e)\<rparr>),
       num_portals := Suc (num_portals a + length spans)\<rparr>
   = linked_chunk a t cc p np (spans @ [(s, e)], None)"
  by (simp add: linked_chunk_def linked_portals_close)

lemma scan_cur_lt: "snd (scan f n i) = Some s \<Longrightarrow> s < i"
proof (induction i arbitrary: s)
  case 0
  then show ?case by simp
next
  case (Suc i)
  obtain spans cur where st: "scan f n i = (spans, cur)" by (cases "scan f n i")
  show ?case
  proof (cases cur)
    case None
    with Suc.prems st show ?thesis by (auto simp: scan_step_def split: if_splits)
  next
    case (Some s')
    with Suc.IH [of s'] st have "s' < i" by simp
    with Suc.prems st Some show ?thesis by (auto simp: scan_step_def split: if_splits)
  qed
qed

lemma opened_scan_step: "opened st \<le> opened (scan_step f n i st)"
  by (cases st) (auto simp: opened_def scan_step_def split: option.splits)

lemma opened_scan_mono: "i \<le> j \<Longrightarrow> opened (scan f n i) \<le> opened (scan f n j)"
proof (induction j)
  case 0
  then show ?case by simp
next
  case (Suc j)
  show ?case
  proof (cases "i = Suc j")
    case True
    then show ?thesis by simp
  next
    case False
    with Suc have "opened (scan f n i) \<le> opened (scan f n j)" by simp
    also have "\<dots> \<le> opened (scan f n (Suc j))" by (simp add: opened_scan_step)
    finally show ?thesis .
  qed
qed

lemma edge_coord_pred: "0 < i \<Longrightarrow> edge_coord t (fixed_of t) (int i - 1) = Inr (edge_pt t (i - 1))"
  using edge_coord_eq [of t "i - 1"] by (simp add: of_nat_diff)

lemma link_step_closed:
  fixes a b :: "('w::zero) nav_chunk"
  assumes ptr: "a_ptr < b_ptr"
    and a_in: "a0 + i * stride < 4096"
    and b_in: "b0 + i * stride < 4096"
    and a_np: "num_portals a + opened (scan f n (Suc i)) \<le> MAX_PORTALS_PER_CHUNK"
    and b_np: "num_portals b + opened (scan f n (Suc i)) \<le> MAX_PORTALS_PER_CHUNK"
    and f: "f = can_cross_at (cost_base a) (cost_base b) a0 b0 stride"
  shows "link_step a_ptr a_type a_coord (fixed_of a_type) b_ptr b_type b_coord (fixed_of b_type) n stride i
           (linked_chunk a a_type a_coord b_ptr (num_portals b) (scan f n i),
            linked_chunk b b_type b_coord a_ptr (num_portals a) (scan f n i),
            snd (scan f n i) \<noteq> None, a0 + i * stride, b0 + i * stride)
         = Inr (linked_chunk a a_type a_coord b_ptr (num_portals b) (scan f n (Suc i)),
                linked_chunk b b_type b_coord a_ptr (num_portals a) (scan f n (Suc i)),
                snd (scan f n (Suc i)) \<noteq> None, a0 + Suc i * stride, b0 + Suc i * stride)"
proof -
  obtain spans cur where st: "scan f n i = (spans, cur)" by (cases "scan f n i")
  have cc: "(cost_base a (a0 + i * stride) \<noteq> COST_IMPASSABLE \<and> cost_base b (b0 + i * stride) \<noteq> COST_IMPASSABLE) = f i"
    by (simp add: f can_cross_at_def)
  show ?thesis
  proof (cases cur)
    case None
    show ?thesis
    proof (cases "f i")
      case True
      with None st have nxt: "scan f n (Suc i) = (spans, Some i)"
        by (simp add: scan_step_def)
      from a_np b_np nxt have np: "num_portals a + length spans < 64" "num_portals b + length spans < 64"
        by (simp_all add: opened_def)
      show ?thesis
        unfolding link_step_def
        using ptr a_in b_in np True
        by (simp add: st None nxt cc Let_def edge_coord_eq linked_chunk_open del: scan.simps)
    next
      case False
      with None st have nxt: "scan f n (Suc i) = (spans, None)"
        by (simp add: scan_step_def)
      show ?thesis
        unfolding link_step_def
        using ptr a_in b_in False
        by (simp add: st None nxt cc Let_def del: scan.simps)
    qed
  next
    case (Some s)
    with scan_cur_lt [of f n i s] st have s_lt: "s < i" by simp
    show ?thesis
    proof (cases "\<not> f i \<or> i = n - 1")
      case True
      define e where "e = (if \<not> f i then i - 1 else i)"
      from True Some st have nxt: "scan f n (Suc i) = (spans @ [(s, e)], None)"
        by (simp add: scan_step_def e_def)
      from a_np b_np nxt have np: "num_portals a + length spans < 64" "num_portals b + length spans < 64"
        by (simp_all add: opened_def)
      have idx: "edge_coord t (fixed_of t) (if \<not> f i then int i - 1 else int i) = Inr (edge_pt t e)" for t
        using s_lt by (simp add: e_def edge_coord_eq edge_coord_pred)
      show ?thesis
        unfolding link_step_def
        using ptr a_in b_in np True
        by (simp add: st Some nxt cc Let_def idx linked_chunk_close del: scan.simps)
    next
      case False
      with Some st have nxt: "scan f n (Suc i) = (spans, Some s)"
        by (simp add: scan_step_def)
      show ?thesis
        unfolding link_step_def
        using ptr a_in b_in False
        by (simp add: st Some nxt cc Let_def del: scan.simps)
    qed
  qed
qed

lemma facing_cursors:
  assumes "facing a_type b_type" and "i < 64"
  shows "edge_start a_type + i * link_stride a_type < 4096"
    and "edge_start b_type + i * link_stride a_type < 4096"
  using assms by (auto simp: facing_def edge_start_def link_stride_def cell_def)

lemma n_link_chunks_unfold:
  "n_link_chunks a_ptr a a_type a_coord b_ptr b b_type b_coord =
     seq (for_upto 64
            (link_step a_ptr a_type a_coord (fixed_of a_type) b_ptr b_type b_coord (fixed_of b_type) 64
               (link_stride a_type))
            (a, b, False, edge_start a_type, edge_start b_type))
       (\<lambda>(a, b, in_portal, a_cursor, b_cursor). Inr (a, b))"
  by (simp add: n_link_chunks_def edge_types_assert_True fixed_idx_eq horizontal_iff
      link_stride_def edge_start_def Let_def)

lemma n_link_chunks_closed:
  fixes a b :: "('w::zero) nav_chunk"
  assumes ptr: "a_ptr < b_ptr" and facing: "facing a_type b_type"
    and a_np: "num_portals a + opened (link_spans a a_type b b_type) \<le> MAX_PORTALS_PER_CHUNK"
    and b_np: "num_portals b + opened (link_spans a a_type b b_type) \<le> MAX_PORTALS_PER_CHUNK"
  shows "n_link_chunks a_ptr a a_type a_coord b_ptr b b_type b_coord =
         Inr (linked_chunk a a_type a_coord b_ptr (num_portals b) (link_spans a a_type b b_type),
              linked_chunk b b_type b_coord a_ptr (num_portals a) (link_spans a a_type b b_type))"
proof -
  define f where "f = crossable a a_type b b_type"
  define F where "F = (\<lambda>i. (linked_chunk a a_type a_coord b_ptr (num_portals b) (scan f 64 i),
            linked_chunk b b_type b_coord a_ptr (num_portals a) (scan f 64 i),
            snd (scan f 64 i) \<noteq> None, edge_start a_type + i * link_stride a_type,
            edge_start b_type + i * link_stride a_type))"
  have "for_upto 64
          (link_step a_ptr a_type a_coord (fixed_of a_type) b_ptr b_type b_coord (fixed_of b_type) 64
             (link_stride a_type)) (F 0) = Inr (F 64)"
  proof (rule for_upto_closed)
    fix j :: nat assume j: "j < 64"
    then have "opened (scan f 64 (Suc j)) \<le> opened (scan f 64 64)"
      by (intro opened_scan_mono) simp
    with a_np b_np have np: "num_portals a + opened (scan f 64 (Suc j)) \<le> 64"
      "num_portals b + opened (scan f 64 (Suc j)) \<le> 64"
      by (simp_all add: link_spans_def f_def)
    show "link_step a_ptr a_type a_coord (fixed_of a_type) b_ptr b_type b_coord (fixed_of b_type) 64
             (link_stride a_type) j (F j) = Inr (F (Suc j))"
      unfolding F_def
      by (rule link_step_closed [OF ptr facing_cursors [OF facing j] np])
        (simp add: f_def crossable_def)
  qed
  then show ?thesis
    by (simp add: n_link_chunks_unfold F_def link_spans_def f_def)
qed

lemma for_upto_fail:
  assumes "i < n" and "for_upto i body s = Inr t" and "body i t = Inl e"
  shows "for_upto n body s = Inl e"
  using assms(1)
proof (induction n)
  case 0
  then show ?case by simp
next
  case (Suc n)
  show ?case
  proof (cases "i = n")
    case True
    with assms(2,3) show ?thesis by simp
  next
    case False
    with Suc have "for_upto n body s = Inl e" by simp
    then show ?thesis by simp
  qed
qed

lemma first_violation:
  assumes "P (0::nat)" and "\<not> P n"
  shows "\<exists>j<n. P j \<and> \<not> P (Suc j)"
  using assms(2)
proof (induction n)
  case 0
  with assms(1) show ?case by simp
next
  case (Suc n)
  show ?case
  proof (cases "P n")
    case True
    with Suc.prems show ?thesis by auto
  next
    case False
    with Suc.IH obtain j where "j < n" "P j" "\<not> P (Suc j)" by auto
    then show ?thesis by (auto intro: exI [of _ j])
  qed
qed

lemma link_step_overflow:
  fixes a b :: "('w::zero) nav_chunk"
  assumes ptr: "a_ptr < b_ptr"
    and a_in: "a0 + i * stride < 4096"
    and b_in: "b0 + i * stride < 4096"
    and ok: "num_portals a + opened (scan f n i) \<le> MAX_PORTALS_PER_CHUNK"
      "num_portals b + opened (scan f n i) \<le> MAX_PORTALS_PER_CHUNK"
    and bad: "\<not> (num_portals a + opened (scan f n (Suc i)) \<le> MAX_PORTALS_PER_CHUNK \<and>
               num_portals b + opened (scan f n (Suc i)) \<le> MAX_PORTALS_PER_CHUNK)"
    and f: "f = can_cross_at (cost_base a) (cost_base b) a0 b0 stride"
  shows "link_step a_ptr a_type a_coord (fixed_of a_type) b_ptr b_type b_coord (fixed_of b_type) n stride i
           (linked_chunk a a_type a_coord b_ptr (num_portals b) (scan f n i),
            linked_chunk b b_type b_coord a_ptr (num_portals a) (scan f n i),
            snd (scan f n i) \<noteq> None, a0 + i * stride, b0 + i * stride)
         = Inl OutOfBounds"
proof -
  obtain spans cur where st: "scan f n i = (spans, cur)" by (cases "scan f n i")
  have cc: "(cost_base a (a0 + i * stride) \<noteq> COST_IMPASSABLE \<and> cost_base b (b0 + i * stride) \<noteq> COST_IMPASSABLE) = f i"
    by (simp add: f can_cross_at_def)
  have grow: "opened (scan f n (Suc i)) \<noteq> opened (scan f n i)"
    using ok bad by auto
  have at_open: "cur = None \<and> f i"
    using grow st by (cases cur) (auto simp: scan_step_def opened_def split: if_splits)
  then have nxt: "scan f n (Suc i) = (spans, Some i)"
    using st by (simp add: scan_step_def)
  have "opened (scan f n (Suc i)) = Suc (length spans)"
    unfolding nxt by (simp add: opened_def)
  with bad have full: "\<not> num_portals a + length spans < 64 \<or> \<not> num_portals b + length spans < 64"
    by auto
  show ?thesis
    unfolding link_step_def
    using ptr a_in b_in at_open full
    by (auto simp: st cc Let_def edge_coord_eq simp del: scan.simps)
qed

lemma n_link_chunks_overflow:
  fixes a b :: "('w::zero) nav_chunk"
  assumes ptr: "a_ptr < b_ptr" and facing: "facing a_type b_type"
    and np: "num_portals a \<le> MAX_PORTALS_PER_CHUNK" "num_portals b \<le> MAX_PORTALS_PER_CHUNK"
    and bad: "\<not> (num_portals a + opened (link_spans a a_type b b_type) \<le> MAX_PORTALS_PER_CHUNK \<and>
               num_portals b + opened (link_spans a a_type b b_type) \<le> MAX_PORTALS_PER_CHUNK)"
  shows "n_link_chunks a_ptr a a_type a_coord b_ptr b b_type b_coord = Inl OutOfBounds"
proof -
  define f where "f = crossable a a_type b b_type"
  define P where "P = (\<lambda>k. num_portals a + opened (scan f 64 k) \<le> 64 \<and> num_portals b + opened (scan f 64 k) \<le> 64)"
  define F where "F = (\<lambda>i. (linked_chunk a a_type a_coord b_ptr (num_portals b) (scan f 64 i),
            linked_chunk b b_type b_coord a_ptr (num_portals a) (scan f 64 i),
            snd (scan f 64 i) \<noteq> None, edge_start a_type + i * link_stride a_type,
            edge_start b_type + i * link_stride a_type))"
  let ?body = "link_step a_ptr a_type a_coord (fixed_of a_type) b_ptr b_type b_coord (fixed_of b_type) 64
             (link_stride a_type)"
  have "P 0" using np by (simp add: P_def opened_def)
  moreover have "\<not> P 64" using bad by (simp add: P_def link_spans_def f_def)
  ultimately obtain j where j: "j < 64" "P j" "\<not> P (Suc j)"
    using first_violation [of P 64] by auto
  have prefix: "for_upto j ?body (F 0) = Inr (F j)"
  proof (rule for_upto_closed)
    fix k assume k: "k < j"
    then have "opened (scan f 64 (Suc k)) \<le> opened (scan f 64 j)"
      by (intro opened_scan_mono) simp
    with j(2) have ok: "num_portals a + opened (scan f 64 (Suc k)) \<le> 64"
      "num_portals b + opened (scan f 64 (Suc k)) \<le> 64"
      by (simp_all add: P_def)
    from k j(1) have k64: "k < 64" by simp
    show "?body k (F k) = Inr (F (Suc k))"
      unfolding F_def
      by (rule link_step_closed [OF ptr facing_cursors [OF facing k64] ok])
        (simp add: f_def crossable_def)
  qed
  have "?body j (F j) = Inl OutOfBounds"
    unfolding F_def
    using j(2,3) unfolding P_def
    by (intro link_step_overflow [OF ptr facing_cursors [OF facing j(1)]])
      (simp_all add: f_def crossable_def)
  from for_upto_fail [OF j(1) prefix this] show ?thesis
    by (simp add: n_link_chunks_unfold F_def)
qed

text \<open>The outcome of \<^verbatim>\<open>n_link_chunks\<close> on two facing edges, in every case.\<close>

lemma n_link_chunks_cases:
  fixes a b :: "('w::zero) nav_chunk"
  assumes "a_ptr < b_ptr" and "facing a_type b_type"
    and "num_portals a \<le> MAX_PORTALS_PER_CHUNK" and "num_portals b \<le> MAX_PORTALS_PER_CHUNK"
  shows "n_link_chunks a_ptr a a_type a_coord b_ptr b b_type b_coord =
         (if num_portals a + opened (link_spans a a_type b b_type) \<le> MAX_PORTALS_PER_CHUNK \<and>
             num_portals b + opened (link_spans a a_type b b_type) \<le> MAX_PORTALS_PER_CHUNK
          then Inr (linked_chunk a a_type a_coord b_ptr (num_portals b) (link_spans a a_type b b_type),
                    linked_chunk b b_type b_coord a_ptr (num_portals a) (link_spans a a_type b b_type))
          else Inl OutOfBounds)"
proof (cases "num_portals a + opened (link_spans a a_type b b_type) \<le> MAX_PORTALS_PER_CHUNK \<and>
             num_portals b + opened (link_spans a a_type b b_type) \<le> MAX_PORTALS_PER_CHUNK")
  case True
  then show ?thesis
    using n_link_chunks_closed [OF assms(1,2), of a b a_coord b_coord] by simp
next
  case False
  then show ?thesis
    using n_link_chunks_overflow [OF assms False, of a_coord b_coord] by simp
qed

section \<open>Portal discovery: spans, runs and calls\<close>

lemma scan_cong: "(\<And>i. i < m \<Longrightarrow> f i = g i) \<Longrightarrow> scan f n m = scan g n m"
  by (induction m) (auto simp: scan_step_def split: option.splits prod.splits)

lemma scan_bound:
  "2 * length (fst (scan f n i)) + (if snd (scan f n i) = None then 0 else 1) \<le> i"
proof (induction i)
  case 0
  then show ?case by simp
next
  case (Suc i)
  obtain spans cur where st: "scan f n i = (spans, cur)" by (cases "scan f n i")
  with Suc show ?case
    by (cases cur) (auto simp: scan_step_def)
qed

lemma opened_scan_le: "opened (scan f n i) \<le> (i + 1) div 2"
  using scan_bound [of f n i] by (auto simp: opened_def split: if_splits)

lemma opened_link_spans_le: "opened (link_spans a a_type b b_type) \<le> 32"
  using opened_scan_le [of "crossable a a_type b b_type" 64 64] by (simp add: link_spans_def)

lemma spans_ok_step:
  assumes "spans_ok f i st"
  shows "spans_ok f (Suc i) (scan_step f n i st)"
proof -
  obtain spans cur where st: "st = (spans, cur)" by (cases st)
  show ?thesis
  proof (cases cur)
    case None
    with assms st show ?thesis
      by (auto simp: spans_ok_def scan_step_def less_Suc_eq)
  next
    case (Some s)
    from assms st Some have s: "s < i" "\<And>k. s \<le> k \<Longrightarrow> k < i \<Longrightarrow> f k"
      and old: "\<And>sp. sp \<in> set spans \<Longrightarrow> fst sp \<le> snd sp \<and> snd sp < i \<and> (\<forall>k. fst sp \<le> k \<and> k \<le> snd sp \<longrightarrow> f k)"
      by (auto simp: spans_ok_def)
    show ?thesis
    proof (cases "f i")
      case True
      have "\<And>k. s \<le> k \<Longrightarrow> k \<le> i \<Longrightarrow> f k"
        using s(2) True by (metis le_neq_implies_less)
      with True s(1) old show ?thesis
        unfolding st Some spans_ok_def scan_step_def
        by (auto simp: less_Suc_eq less_Suc_eq_le)
    next
      case False
      have "\<And>k. s \<le> k \<Longrightarrow> k \<le> i - 1 \<Longrightarrow> f k"
        using s by (intro s(2)) auto
      with False s(1) old show ?thesis
        unfolding st Some spans_ok_def scan_step_def
        by (auto simp: less_Suc_eq)
    qed
  qed
qed

lemma spans_ok_scan: "spans_ok f i (scan f n i)"
proof (induction i)
  case 0
  show ?case by (simp add: spans_ok_def)
next
  case (Suc i)
  then show ?case by (simp add: spans_ok_step)
qed

lemma for_upto_nested_partial:
  assumes run: "for_upto h (\<lambda>i. for_upto w (body i)) s = Inr s'"
    and init: "I 0 0 s"
    and row: "\<And>i t. i < h \<Longrightarrow> I i w t \<Longrightarrow> I (Suc i) 0 t"
    and step: "\<And>i j t t'. i < h \<Longrightarrow> j < w \<Longrightarrow> I i j t \<Longrightarrow> body i j t = Inr t' \<Longrightarrow> I i (Suc j) t'"
  shows "I h 0 s'"
proof (rule for_upto_partial [OF run, where I = "\<lambda>i. I i 0"])
  show "I 0 0 s" by (rule init)
next
  fix i t t'
  assume i: "i < h" and t: "I i 0 t" and inner: "for_upto w (body i) t = Inr t'"
  have "I i w t'"
    by (rule for_upto_partial [OF inner, where I = "I i"]) (use t step [OF i] in auto)
  with row [OF i] show "I (Suc i) 0 t'" by simp
qed

lemma link_chunks_at_dims:
  assumes "link_chunks_at p ai a_type a_coord bi b_type b_coord = Inr p'"
  shows "width p' = width p \<and> height p' = height p"
  using assms by (auto simp: link_chunks_at_def seq_eq_Inr)

text \<open>What one pass of the body does, when it ends without error.\<close>

lemma n_create_portals_body_Inr:
  fixes p :: "('w::zero) nav_private"
  assumes run: "n_create_portals_body i j (p, n, calls) = Inr (p', n', calls')"
    and j: "j < width p"
  shows "\<exists>p1. (if i + 1 < height p
               then link_chunks_at p (i * width p + j) EDGE_BOT \<lparr>r = int i, c = int j\<rparr>
                      (i * width p + j + width p) EDGE_TOP \<lparr>r = int i + 1, c = int j\<rparr> = Inr p1
               else p1 = p) \<and>
              (if j + 1 < width p
               then link_chunks_at p1 (i * width p + j) EDGE_RIGHT \<lparr>r = int i, c = int j\<rparr>
                      (i * width p + j + 1) EDGE_LEFT \<lparr>r = int i, c = int j + 1\<rparr> = Inr p'
               else p' = p1) \<and>
              width p1 = width p \<and> height p1 = height p \<and>
              n' = n + (if i + 1 < height p then 1 else 0) + (if j + 1 < width p then 1 else 0) \<and>
              calls' = calls @ cell_calls (width p) (height p) (i * width p + j)"
proof -
  have dm: "(i * width p + j) div width p = i" "(i * width p + j) mod width p = j"
    using j by simp_all
  have idx: "(i + 1) * width p + j = i * width p + j + width p" "i * width p + (j + 1) = i * width p + j + 1"
    by simp_all
  have idx': "width p + i * width p + j = i * width p + j + width p"
    by simp
  define b1 where "b1 = (if i + 1 < height p
         then seq (link_chunks_at p (i * width p + j) EDGE_BOT \<lparr>r = int i, c = int j\<rparr>
                     (i * width p + j + width p) EDGE_TOP \<lparr>r = int i + 1, c = int j\<rparr>)
                (\<lambda>q. Inr (q, calls @ [(i * width p + j, EDGE_BOT, i * width p + j + width p, EDGE_TOP)]))
         else Inr (p, calls))"
  define b2 where "b2 = (\<lambda>(p1 :: 'w nav_private, calls1). if j + 1 < width p
         then seq (link_chunks_at p1 (i * width p + j) EDGE_RIGHT \<lparr>r = int i, c = int j\<rparr>
                     (i * width p + j + 1) EDGE_LEFT \<lparr>r = int i, c = int j + 1\<rparr>)
                (\<lambda>q. Inr (q, calls1 @ [(i * width p + j, EDGE_RIGHT, i * width p + j + 1, EDGE_LEFT)]))
         else Inr (p1, calls1))"
  have body: "n_create_portals_body i j (p, n, calls) =
      seq b1 (\<lambda>(p1, calls1). seq (b2 (p1, calls1))
        (\<lambda>(p2, calls2). Inr (p2, n + ((if i + 1 < height p then 1 else 0) + (if j + 1 < width p then 1 else 0)), calls2)))"
    unfolding n_create_portals_body_def Let_def b1_def b2_def
    by (auto simp: less_diff_conv idx' intro!: arg_cong2 [where f = seq] ext)
  from run [unfolded body] obtain p1 calls1 p2 calls2 where
    s1: "b1 = Inr (p1, calls1)" and s2: "b2 (p1, calls1) = Inr (p2, calls2)"
    and fin: "p' = p2" "n' = n + ((if i + 1 < height p then 1 else 0) + (if j + 1 < width p then 1 else 0))"
      "calls' = calls2"
    by (auto simp: seq_eq_Inr)
  have r1: "(if i + 1 < height p
               then link_chunks_at p (i * width p + j) EDGE_BOT \<lparr>r = int i, c = int j\<rparr>
                      (i * width p + j + width p) EDGE_TOP \<lparr>r = int i + 1, c = int j\<rparr> = Inr p1
               else p1 = p) \<and>
        calls1 = calls @ (if i + 1 < height p then [(i * width p + j, EDGE_BOT, i * width p + j + width p, EDGE_TOP)] else [])"
    using s1 unfolding b1_def by (auto simp: seq_eq_Inr split: if_splits)
  then have d1: "width p1 = width p \<and> height p1 = height p"
    by (auto dest: link_chunks_at_dims split: if_splits)
  have r2: "(if j + 1 < width p
               then link_chunks_at p1 (i * width p + j) EDGE_RIGHT \<lparr>r = int i, c = int j\<rparr>
                      (i * width p + j + 1) EDGE_LEFT \<lparr>r = int i, c = int j + 1\<rparr> = Inr p2
               else p2 = p1) \<and>
        calls2 = calls1 @ (if j + 1 < width p then [(i * width p + j, EDGE_RIGHT, i * width p + j + 1, EDGE_LEFT)] else [])"
    using s2 unfolding b2_def by (auto simp: seq_eq_Inr split: if_splits)
  from r1 r2 d1 fin j show ?thesis
    by (intro exI [of _ p1]) (auto simp: cell_calls_def)
qed







lemma links_after_row:
  assumes "i < h"
  shows "links_after w h i w = links_after w h (Suc i) 0"
proof -
  define w1 where "w1 = w - 1"
  have m: "min w w1 = w1" by (simp add: w1_def)
  show ?thesis
  proof (cases "i + 1 < h")
    case True
    then have "min i (h - 1) = i" "min (Suc i) (h - 1) = Suc i" by simp_all
    with True m show ?thesis
      unfolding links_after_def w1_def [symmetric] by simp
  next
    case False
    with assms have "min i (h - 1) = i" "min (Suc i) (h - 1) = i" by simp_all
    with False m show ?thesis
      unfolding links_after_def w1_def [symmetric] by simp
  qed
qed

lemma links_after_step:
  "j < w \<Longrightarrow> links_after w h i (Suc j) =
     links_after w h i j + (if i + 1 < h then 1 else 0) + (if j + 1 < w then 1 else 0)"
  by (auto simp: links_after_def min_def)

lemma links_after_end: "links_after w h h 0 = (w - 1) * h + w * (h - 1)"
  by (cases h) (simp_all add: links_after_def mult.commute)

lemma n_create_portals_loops_calls:
  fixes priv0 :: "('w::zero) nav_private"
  assumes "n_create_portals_loops priv0 = Inr (priv, n_links, calls)"
  shows "width priv = width priv0 \<and> height priv = height priv0 \<and>
         n_links = links_after (width priv0) (height priv0) (height priv0) 0 \<and>
         length calls = n_links \<and>
         calls = adjacency_calls (width priv0) (height priv0)"
proof -
  define w h where "w = width priv0" and "h = height priv0"
  define I where "I = (\<lambda>i j (s :: 'w nav_private \<times> nat \<times> link_call list).
      case s of (p, n, cs) \<Rightarrow> width p = w \<and> height p = h \<and> n = links_after w h i j \<and> length cs = n \<and>
        cs = concat (map (cell_calls w h) [0..<i * w + j]))"
  have "I h 0 (priv, n_links, calls)"
  proof (rule for_upto_nested_partial [where I = I and body = n_create_portals_body])
    show "for_upto h (\<lambda>i. for_upto w (n_create_portals_body i)) (priv0, 0, []) = Inr (priv, n_links, calls)"
      using assms by (simp add: n_create_portals_loops_def w_def h_def)
    show "I 0 0 (priv0, 0, [])"
      by (simp add: I_def w_def h_def links_after_def)
  next
    fix i t assume "i < h" "I i w t"
    moreover have "[0..<Suc i * w + 0] = [0..<i * w + w]"
      by (simp add: add.commute)
    ultimately show "I (Suc i) 0 t"
      unfolding I_def by (cases t) (simp add: links_after_row del: mult_Suc)
  next
    fix i j t t'
    assume i: "i < h" and j: "j < w" and t: "I i j t" and run: "n_create_portals_body i j t = Inr t'"
    obtain p n cs where t_eq: "t = (p, n, cs)" by (cases t)
    obtain p' n' cs' where t'_eq: "t' = (p', n', cs')" by (cases t')
    from t have "width p = w \<and> height p = h \<and> n = links_after w h i j \<and> length cs = n \<and>
      cs = concat (map (cell_calls w h) [0..<i * w + j])"
      unfolding I_def t_eq prod.case .
    then have inv: "width p = w" "height p = h" "n = links_after w h i j" "length cs = n"
      "cs = concat (map (cell_calls w h) [0..<i * w + j])"
      by blast+
    from j inv(1) have jw: "j < width p" by simp
    from n_create_portals_body_Inr [OF run [unfolded t_eq t'_eq] jw] obtain p1 where
      p1: "width p1 = width p" "height p1 = height p"
      and p': "if j + 1 < width p
               then link_chunks_at p1 (i * width p + j) EDGE_RIGHT \<lparr>r = int i, c = int j\<rparr>
                      (i * width p + j + 1) EDGE_LEFT \<lparr>r = int i, c = int j + 1\<rparr> = Inr p'
               else p' = p1"
      and n': "n' = n + (if i + 1 < height p then 1 else 0) + (if j + 1 < width p then 1 else 0)"
      and cs': "cs' = cs @ cell_calls (width p) (height p) (i * width p + j)"
      by blast
    have dims: "width p' = w \<and> height p' = h"
      using p' p1 inv(1,2) by (auto dest: link_chunks_at_dims split: if_splits)
    have len: "length (cell_calls w h (i * w + j)) = (if i + 1 < h then 1 else 0) + (if j + 1 < w then 1 else 0)"
      using j by (simp add: cell_calls_def)
    show "I i (Suc j) t'"
      unfolding I_def t'_eq
      using dims n' cs' inv len j by (simp add: links_after_step)
  qed
  then show ?thesis
    unfolding I_def prod.case adjacency_calls_def w_def h_def by auto
qed

lemma num_runs_Suc:
  "num_runs f (Suc i) = num_runs f i + (if f i \<and> (i = 0 \<or> \<not> f (i - 1)) then 1 else 0)"
  by (simp add: num_runs_def)

text \<open>
  Every run the scan meets opens a portal; before the last position, a portal is open
  exactly when the previous position is crossable.
\<close>

lemma scan_runs:
  assumes "i \<le> n"
  shows "opened (scan f n i) = num_runs f i \<and>
         (i < n \<longrightarrow> (snd (scan f n i) \<noteq> None \<longleftrightarrow> 0 < i \<and> f (i - 1)))"
  using assms
proof (induction i)
  case 0
  then show ?case by (simp add: opened_def num_runs_def)
next
  case (Suc i)
  then have IH: "opened (scan f n i) = num_runs f i"
    "snd (scan f n i) \<noteq> None \<longleftrightarrow> 0 < i \<and> f (i - 1)"
    by simp_all
  obtain spans cur where st: "scan f n i = (spans, cur)" by (cases "scan f n i")
  show ?case
  proof (cases cur)
    case None
    with IH st show ?thesis
      by (auto simp: scan_step_def opened_def num_runs_Suc)
  next
    case (Some s)
    with IH st Suc.prems show ?thesis
      by (auto simp: scan_step_def opened_def num_runs_Suc)
  qed
qed

lemma scan_last_open:
  assumes "0 < n"
  shows "snd (scan f n n) \<noteq> None \<longleftrightarrow> f (n - 1) \<and> (n = 1 \<or> \<not> f (n - 2))"
proof -
  obtain m where n: "n = Suc m" using assms by (cases n) auto
  obtain spans cur where st: "scan f n m = (spans, cur)" by (cases "scan f n m")
  have "cur \<noteq> None \<longleftrightarrow> 0 < m \<and> f (m - 1)"
    using scan_runs [of m n f] st n by simp
  then show ?thesis
    unfolding n using st [unfolded n]
    by (cases cur) (auto simp: scan_step_def numeral_2_eq_2)
qed

text \<open>
  The portals that \<^verbatim>\<open>n_link_chunks\<close> records on an edge: one per maximal run, except for a
  run that begins at the last position.
\<close>

lemma scan_recorded:
  assumes "0 < n"
  shows "length (fst (scan f n n)) =
         num_runs f n - (if f (n - 1) \<and> (n = 1 \<or> \<not> f (n - 2)) then 1 else 0)"
  using scan_runs [of n n f] scan_last_open [OF assms, of f]
  by (auto simp: opened_def split: if_splits)

section \<open>Portal discovery: the loops over the chunks\<close>

lemma link_spans_cost_cong:
  "cost_base a = cost_base a' \<Longrightarrow> cost_base b = cost_base b' \<Longrightarrow>
   link_spans a a_type b b_type = link_spans a' a_type b' b_type"
  by (simp add: link_spans_def crossable_def)

text \<open>A call of \<^verbatim>\<open>n_link_chunks\<close> on two chunks of the array, in every case.\<close>

lemma link_chunks_at_cases:
  fixes p :: "('w::zero) nav_private"
  assumes "ai < bi" and "facing a_type b_type"
    and "num_portals (chunks p ai) \<le> MAX_PORTALS_PER_CHUNK"
    and "num_portals (chunks p bi) \<le> MAX_PORTALS_PER_CHUNK"
  shows "link_chunks_at p ai a_type a_coord bi b_type b_coord =
     (if num_portals (chunks p ai) + opened (link_spans (chunks p ai) a_type (chunks p bi) b_type) \<le> MAX_PORTALS_PER_CHUNK \<and>
         num_portals (chunks p bi) + opened (link_spans (chunks p ai) a_type (chunks p bi) b_type) \<le> MAX_PORTALS_PER_CHUNK
      then Inr (p\<lparr>chunks := (chunks p)
             (ai := linked_chunk (chunks p ai) a_type a_coord bi (num_portals (chunks p bi))
                      (link_spans (chunks p ai) a_type (chunks p bi) b_type),
              bi := linked_chunk (chunks p bi) b_type b_coord ai (num_portals (chunks p ai))
                      (link_spans (chunks p ai) a_type (chunks p bi) b_type))\<rparr>)
      else Inl OutOfBounds)"
  unfolding link_chunks_at_def n_link_chunks_cases [OF assms] by simp

text \<open>
  The same in terms of what the rest of portal discovery reads: the portal counts and
  the cost grids.
\<close>

lemma link_chunks_at_counts:
  fixes p :: "('w::zero) nav_private"
  assumes "ai < bi" and "facing a_type b_type"
    and "num_portals (chunks p ai) \<le> MAX_PORTALS_PER_CHUNK"
    and "num_portals (chunks p bi) \<le> MAX_PORTALS_PER_CHUNK"
    and "sp = link_spans (chunks p ai) a_type (chunks p bi) b_type"
    and "num_portals (chunks p ai) + opened sp \<le> MAX_PORTALS_PER_CHUNK"
    and "num_portals (chunks p bi) + opened sp \<le> MAX_PORTALS_PER_CHUNK"
  shows "\<exists>p'. link_chunks_at p ai a_type a_coord bi b_type b_coord = Inr p' \<and>
           width p' = width p \<and> height p' = height p \<and>
           (\<forall>k. cost_base (chunks p' k) = cost_base (chunks p k)) \<and>
           (\<forall>k. num_portals (chunks p' k) =
                  num_portals (chunks p k) + (if k = ai \<or> k = bi then length (fst sp) else 0))"
  unfolding link_chunks_at_cases [OF assms(1-4)] using assms(5-7) by simp

lemma link_chunks_at_overflow:
  fixes p :: "('w::zero) nav_private"
  assumes "ai < bi" and "facing a_type b_type"
    and "num_portals (chunks p ai) \<le> MAX_PORTALS_PER_CHUNK"
    and "num_portals (chunks p bi) \<le> MAX_PORTALS_PER_CHUNK"
    and "sp = link_spans (chunks p ai) a_type (chunks p bi) b_type"
    and "\<not> (num_portals (chunks p ai) + opened sp \<le> MAX_PORTALS_PER_CHUNK \<and>
            num_portals (chunks p bi) + opened sp \<le> MAX_PORTALS_PER_CHUNK)"
  shows "link_chunks_at p ai a_type a_coord bi b_type b_coord = Inl OutOfBounds"
  unfolding link_chunks_at_cases [OF assms(1-4)] using assms(5,6) by simp

lemma for_upto_1: "for_upto 1 body s = body 0 s"
  by simp

lemma for_upto_2: "for_upto 2 body s = seq (body 0 s) (body 1)"
  by (simp add: numeral_2_eq_2)

lemma for_upto_3: "for_upto 3 body s = seq (seq (body 0 s) (body 1)) (body 2)"
  by (simp add: numeral_3_eq_3 numeral_2_eq_2)

text \<open>Portal discovery on a map of two chunks side by side that hold at most 32 portals each.\<close>

lemma n_create_portals_loops_2x1:
  fixes p :: "('w::zero) nav_private"
  assumes dims: "width p = 2" "height p = 1"
    and np: "num_portals (chunks p 0) \<le> 32" "num_portals (chunks p 1) \<le> 32"
  shows "\<exists>p'. n_create_portals_loops p = Inr (p', 1, [(0, EDGE_RIGHT, 1, EDGE_LEFT)]) \<and>
              width p' = 2 \<and> height p' = 1 \<and>
              link_chunks_at p 0 EDGE_RIGHT \<lparr>r = 0, c = 0\<rparr> 1 EDGE_LEFT \<lparr>r = 0, c = 1\<rparr> = Inr p'"
proof -
  define sp where "sp = link_spans (chunks p 0) EDGE_RIGHT (chunks p 1) EDGE_LEFT"
  have le: "opened sp \<le> 32"
    unfolding sp_def by (rule opened_link_spans_le)
  have "\<exists>p'. link_chunks_at p 0 EDGE_RIGHT \<lparr>r = 0, c = 0\<rparr> 1 EDGE_LEFT \<lparr>r = 0, c = 1\<rparr> = Inr p' \<and>
           width p' = width p \<and> height p' = height p \<and>
           (\<forall>k. cost_base (chunks p' k) = cost_base (chunks p k)) \<and>
           (\<forall>k. num_portals (chunks p' k) =
                  num_portals (chunks p k) + (if k = 0 \<or> k = 1 then length (fst sp) else 0))"
    using np le by (intro link_chunks_at_counts) (simp_all add: facing_def sp_def)
  then obtain p' where p': "link_chunks_at p 0 EDGE_RIGHT \<lparr>r = 0, c = 0\<rparr> 1 EDGE_LEFT \<lparr>r = 0, c = 1\<rparr> = Inr p'"
    and d: "width p' = 2" "height p' = 1"
    using dims by auto
  have b0: "n_create_portals_body 0 0 (p, 0, []) = Inr (p', Suc 0, [(0, EDGE_RIGHT, Suc 0, EDGE_LEFT)])"
    by (simp add: n_create_portals_body_def Let_def dims p' [unfolded One_nat_def])
  have b1: "n_create_portals_body 0 (Suc 0) (p', Suc 0, [(0, EDGE_RIGHT, Suc 0, EDGE_LEFT)])
            = Inr (p', Suc 0, [(0, EDGE_RIGHT, Suc 0, EDGE_LEFT)])"
    by (simp add: n_create_portals_body_def Let_def d)
  have "n_create_portals_loops p = Inr (p', 1, [(0, EDGE_RIGHT, 1, EDGE_LEFT)])"
    unfolding n_create_portals_loops_def dims for_upto_1 for_upto_2 by (simp add: b0 b1)
  with d p' show ?thesis by blast
qed

lemma n_create_portals_2x1:
  fixes p :: "('w::zero) nav_private"
  assumes "width p = 2" "height p = 1"
    and "num_portals (chunks p 0) \<le> 32" "num_portals (chunks p 1) \<le> 32"
  shows "n_create_portals p = Inl AssertFailed"
proof -
  from n_create_portals_loops_2x1 [OF assms] obtain p' where
    "n_create_portals_loops p = Inr (p', 1, [(0, EDGE_RIGHT, 1, EDGE_LEFT)])" "width p' = 2" "height p' = 1"
    by blast
  then show ?thesis by (simp add: n_create_portals_def)
qed

lemma link_counts_agree:
  assumes "1 \<le> w" and "1 \<le> h"
  shows "(w - 1) * h + w * (h - 1) = w * (w - 1) + h * (h - 1) \<longleftrightarrow> w = (h::nat)"
proof
  assume eq: "(w - 1) * h + w * (h - 1) = w * (w - 1) + h * (h - 1)"
  obtain a b where ab: "w = Suc a" "h = Suc b"
    using assms by (cases w; cases h) auto
  from eq have sq: "2 * a * b = a * a + b * b"
    unfolding ab by (simp add: algebra_simps)
  have "a = b"
  proof (rule ccontr)
    assume "a \<noteq> b"
    then consider d where "b = a + Suc d" | d where "a = b + Suc d"
      by (metis add_Suc_right less_imp_Suc_add linorder_neqE_nat)
    then show False
    proof cases
      case 1
      with sq show False by (simp add: algebra_simps)
    next
      case 2
      with sq show False by (simp add: algebra_simps)
    qed
  qed
  then show "w = h" by (simp add: ab)
next
  assume "w = h"
  then show "(w - 1) * h + w * (h - 1) = w * (w - 1) + h * (h - 1)"
    by (simp add: mult.commute)
qed

text \<open>The assertion that ends \<^verbatim>\<open>n_create_portals\<close> holds exactly on square maps.\<close>

lemma n_create_portals_square:
  fixes priv0 :: "('w::zero) nav_private"
  assumes "n_create_portals_loops priv0 = Inr (priv, n_links, calls)"
    and "1 \<le> width priv0" and "1 \<le> height priv0"
  shows "n_create_portals priv0 = (if width priv0 = height priv0 then Inr priv else Inl AssertFailed)"
proof -
  from n_create_portals_loops_calls [OF assms(1)]
  have "width priv = width priv0" "height priv = height priv0"
    "n_links = (width priv0 - 1) * height priv0 + width priv0 * (height priv0 - 1)"
    by (simp_all add: links_after_end)
  with link_counts_agree [OF assms(2,3)] show ?thesis
    by (simp add: n_create_portals_def assms(1))
qed



text \<open>
  Claim C6, at a map of two fully passable chunks side by side: the loops count one link,
  the assertion expects \<open>2 * 1 + 1 * 0 = 2\<close>, and \<^verbatim>\<open>n_create_portals\<close> aborts.
\<close>

theorem n_create_portals_2x1_aborts: "n_create_portals map_2x1 = Inl AssertFailed"
  by (rule n_create_portals_2x1) (simp_all add: map_2x1_def open_chunk_def)

section \<open>Portal discovery: runs at the end of the edge and the capacity of the portal array\<close>

lemma filter_eq_upt: "k < n \<Longrightarrow> filter (\<lambda>i. i = k \<and> P i) [0..<n] = (if P k then [k] else [])"
  by (induction n) (auto simp: less_Suc_eq)

lemma n_link_chunks_records_runs:
  fixes a b :: "('w::zero) nav_chunk"
  assumes "a_ptr < b_ptr" and "facing a_type b_type"
    and "num_portals a \<le> 32" and "num_portals b \<le> 32"
    and "f = crossable a a_type b b_type"
  shows "\<exists>a' b'. n_link_chunks a_ptr a a_type a_coord b_ptr b b_type b_coord = Inr (a', b') \<and>
           num_portals a' = num_portals a + (num_runs f 64 - (if f 63 \<and> \<not> f 62 then 1 else 0)) \<and>
           num_portals b' = num_portals b + (num_runs f 64 - (if f 63 \<and> \<not> f 62 then 1 else 0))"
proof -
  have le: "opened (link_spans a a_type b b_type) \<le> 32"
    by (rule opened_link_spans_le)
  have "length (fst (scan f 64 64)) = num_runs f 64 - (if f 63 \<and> \<not> f 62 then 1 else 0)"
    using scan_recorded [of 64 f] by simp
  then show ?thesis
    unfolding n_link_chunks_closed [OF assms(1,2), of a b a_coord b_coord, OF
        le_trans [OF add_mono [OF assms(3) le]] le_trans [OF add_mono [OF assms(4) le]], simplified]
    by (simp add: link_spans_def assms(5))
qed

lemma crossable_corner: "crossable corner_chunk EDGE_BOT corner_chunk EDGE_TOP = (\<lambda>i. i = 63)"
  by (rule ext)
    (auto simp: crossable_def can_cross_at_def corner_chunk_def edge_start_def link_stride_def cell_def)

text \<open>
  Claim C2, at two chunks, one above the other, whose shared edge is crossable at its
  last position only: the edge has one maximal run of crossable positions, and
  \<^verbatim>\<open>n_link_chunks\<close> returns with no portal recorded in either chunk.
\<close>

theorem n_link_chunks_misses_last_cell_run:
  "\<exists>a' b'. n_link_chunks 0 corner_chunk EDGE_BOT \<lparr>r = 0, c = 0\<rparr> 1 corner_chunk EDGE_TOP \<lparr>r = 1, c = 0\<rparr>
             = Inr (a', b') \<and>
           num_portals a' = 0 \<and> num_portals b' = 0 \<and>
           num_runs (crossable corner_chunk EDGE_BOT corner_chunk EDGE_TOP) 64 = 1"
proof -
  have runs: "num_runs (\<lambda>i. i = 63) 64 = 1"
    unfolding num_runs_def by (subst filter_eq_upt) simp_all
  have np: "num_portals corner_chunk = 0"
    by (simp add: corner_chunk_def)
  from n_link_chunks_records_runs [of 0 1 EDGE_BOT EDGE_TOP corner_chunk corner_chunk "\<lambda>i. i = 63"
      "\<lparr>r = 0, c = 0\<rparr>" "\<lparr>r = 1, c = 0\<rparr>"]
  show ?thesis
    by (simp add: crossable_corner runs np facing_def)
qed

lemma scan_even:
  "2 * k \<le> n \<Longrightarrow> scan even n (2 * k) = (map (\<lambda>j. (2 * j, 2 * j)) [0..<k], None)"
proof (induction k)
  case 0
  then show ?case by simp
next
  case (Suc k)
  then have IH: "scan even n (2 * k) = (map (\<lambda>j. (2 * j, 2 * j)) [0..<k], None)" by simp
  have "scan even n (2 * Suc k) = scan_step even n (Suc (2 * k)) (scan_step even n (2 * k) (scan even n (2 * k)))"
    by simp
  also have "\<dots> = (map (\<lambda>j. (2 * j, 2 * j)) [0..<Suc k], None)"
    unfolding IH by (simp add: scan_step_def)
  finally show ?case .
qed

lemma edge_offsets:
  assumes "i < 64"
  shows "(4032 + i) div 64 = 63 \<and> (4032 + i) mod 64 = (i::nat)"
    and "(63 + i * 64) div 64 = i \<and> (63 + i * 64) mod 64 = (63::nat)"
  using cell_div_mod [OF assms, of 63] cell_div_mod [of 63 i] by (simp_all add: cell_def)

lemma comb_edges:
  assumes "i < 64"
  shows "comb_grid (4032 + i) \<noteq> COST_IMPASSABLE \<longleftrightarrow> even i"
    and "comb_grid i \<noteq> COST_IMPASSABLE \<longleftrightarrow> even i \<or> i = 0 \<or> i = 63"
    and "comb_grid (63 + i * 64) \<noteq> COST_IMPASSABLE \<longleftrightarrow> even i"
    and "comb_grid (i * 64) \<noteq> COST_IMPASSABLE \<longleftrightarrow> even i \<or> i = 0 \<or> i = 63"
  using assms edge_offsets [OF assms] by (simp_all add: comb_grid_def)

lemma crossable_comb:
  assumes "cost_base a = comb_grid" and "cost_base b = comb_grid" and "facing a_type b_type" and "i < 64"
  shows "crossable a a_type b b_type i = even i"
proof -
  from assms(3) consider "a_type = EDGE_BOT" "b_type = EDGE_TOP" | "a_type = EDGE_RIGHT" "b_type = EDGE_LEFT"
    by (auto simp: facing_def)
  then show ?thesis
  proof cases
    case 1
    then show ?thesis
      unfolding crossable_def can_cross_at_def assms(1,2) edge_start_def link_stride_def cell_def
      using comb_edges(1,2) [OF assms(4)] by auto
  next
    case 2
    then show ?thesis
      unfolding crossable_def can_cross_at_def assms(1,2) edge_start_def link_stride_def cell_def
      using comb_edges(3,4) [OF assms(4)] by auto
  qed
qed

lemma link_spans_comb:
  assumes "cost_base a = comb_grid" and "cost_base b = comb_grid" and "facing a_type b_type"
  shows "link_spans a a_type b b_type = (map (\<lambda>j. (2 * j, 2 * j)) [0..<32], None)"
proof -
  have "link_spans a a_type b b_type = scan even 64 64"
    unfolding link_spans_def by (rule scan_cong) (rule crossable_comb [OF assms])
  also have "\<dots> = (map (\<lambda>j. (2 * j, 2 * j)) [0..<32], None)"
    using scan_even [of 32 64] by simp
  finally show ?thesis .
qed

text \<open>Linking two facing comb edges: 32 portals more in each chunk, or a write beyond the array.\<close>

lemma link_comb:
  fixes p :: "('w::zero) nav_private"
  assumes comb: "\<forall>k. cost_base (chunks p k) = comb_grid"
    and "ai < bi" and "facing a_type b_type"
    and "num_portals (chunks p ai) \<le> 32" and "num_portals (chunks p bi) \<le> 32"
  shows "\<exists>p'. link_chunks_at p ai a_type a_coord bi b_type b_coord = Inr p' \<and>
           width p' = width p \<and> height p' = height p \<and>
           (\<forall>k. cost_base (chunks p' k) = comb_grid) \<and>
           (\<forall>k. num_portals (chunks p' k) = num_portals (chunks p k) + (if k = ai \<or> k = bi then 32 else 0))"
proof -
  have sp: "link_spans (chunks p ai) a_type (chunks p bi) b_type = (map (\<lambda>j. (2 * j, 2 * j)) [0..<32], None)"
    using comb assms(3) by (intro link_spans_comb) simp_all
  have len: "length (fst (link_spans (chunks p ai) a_type (chunks p bi) b_type)) = 32"
    "opened (link_spans (chunks p ai) a_type (chunks p bi) b_type) = 32"
    unfolding sp by (simp_all add: opened_def)
  have "\<exists>p'. link_chunks_at p ai a_type a_coord bi b_type b_coord = Inr p' \<and>
           width p' = width p \<and> height p' = height p \<and>
           (\<forall>k. cost_base (chunks p' k) = cost_base (chunks p k)) \<and>
           (\<forall>k. num_portals (chunks p' k) =
                  num_portals (chunks p k) +
                  (if k = ai \<or> k = bi
                   then length (fst (link_spans (chunks p ai) a_type (chunks p bi) b_type)) else 0))"
    using assms(4,5) by (intro link_chunks_at_counts [OF assms(2,3) _ _ refl]) (simp_all add: len)
  then obtain p' where "link_chunks_at p ai a_type a_coord bi b_type b_coord = Inr p'"
    "width p' = width p" "height p' = height p"
    "\<forall>k. cost_base (chunks p' k) = cost_base (chunks p k)"
    "\<forall>k. num_portals (chunks p' k) = num_portals (chunks p k) + (if k = ai \<or> k = bi then 32 else 0)"
    unfolding len by blast
  with comb show ?thesis
    by (intro exI [of _ p']) simp
qed

lemma link_comb_overflow:
  fixes p :: "('w::zero) nav_private"
  assumes comb: "\<forall>k. cost_base (chunks p k) = comb_grid"
    and "ai < bi" and "facing a_type b_type"
    and "num_portals (chunks p ai) = 64" and "num_portals (chunks p bi) \<le> 64"
  shows "link_chunks_at p ai a_type a_coord bi b_type b_coord = Inl OutOfBounds"
proof -
  have sp: "link_spans (chunks p ai) a_type (chunks p bi) b_type = (map (\<lambda>j. (2 * j, 2 * j)) [0..<32], None)"
    using comb assms(3) by (intro link_spans_comb) simp_all
  show ?thesis
    using assms(4,5)
    by (intro link_chunks_at_overflow [OF assms(2,3) _ _ sp [symmetric]]) (simp_all add: opened_def)
qed

text \<open>
  Portal discovery on the comb map: chunk 1 gets 32 portals from its left edge and 32
  from its bottom edge, and the first portal of its right edge is written to
  \<^verbatim>\<open>portals[64]\<close>.
\<close>

lemma n_create_portals_loops_comb: "n_create_portals_loops comb_map = Inl OutOfBounds"
proof -
  have c0: "\<forall>k. cost_base (chunks comb_map k) = comb_grid" "width comb_map = 3" "height comb_map = 2"
    "\<forall>k. num_portals (chunks comb_map k) = 0"
    by (simp_all add: comb_map_def comb_chunk_def)
  from link_comb [OF c0(1), of 0 3 EDGE_BOT EDGE_TOP "\<lparr>r = 0, c = 0\<rparr>" "\<lparr>r = 0 + 1, c = 0\<rparr>"] c0
  obtain p1 where p1: "link_chunks_at comb_map 0 EDGE_BOT \<lparr>r = 0, c = 0\<rparr> 3 EDGE_TOP \<lparr>r = 0 + 1, c = 0\<rparr> = Inr p1"
    and c1: "\<forall>k. cost_base (chunks p1 k) = comb_grid" "width p1 = 3" "height p1 = 2"
      "\<forall>k. num_portals (chunks p1 k) = (if k = 0 \<or> k = 3 then 32 else 0)"
    by (auto simp: facing_def)
  from link_comb [OF c1(1), of 0 1 EDGE_RIGHT EDGE_LEFT "\<lparr>r = 0, c = 0\<rparr>" "\<lparr>r = 0, c = 0 + 1\<rparr>"] c1
  obtain p2 where p2: "link_chunks_at p1 0 EDGE_RIGHT \<lparr>r = 0, c = 0\<rparr> 1 EDGE_LEFT \<lparr>r = 0, c = 0 + 1\<rparr> = Inr p2"
    and c2: "\<forall>k. cost_base (chunks p2 k) = comb_grid" "width p2 = 3" "height p2 = 2"
      "\<forall>k. num_portals (chunks p2 k) = (if k = 0 \<or> k = 3 then 32 else 0) + (if k = 0 \<or> k = 1 then 32 else 0)"
    by (auto simp: facing_def)
  from link_comb [OF c2(1), of 1 4 EDGE_BOT EDGE_TOP "\<lparr>r = 0, c = 1\<rparr>" "\<lparr>r = 0 + 1, c = 1\<rparr>"] c2
  obtain p3 where p3: "link_chunks_at p2 1 EDGE_BOT \<lparr>r = 0, c = 1\<rparr> 4 EDGE_TOP \<lparr>r = 0 + 1, c = 1\<rparr> = Inr p3"
    and c3: "\<forall>k. cost_base (chunks p3 k) = comb_grid" "width p3 = 3" "height p3 = 2"
      "\<forall>k. num_portals (chunks p3 k) = (if k = 0 \<or> k = 3 then 32 else 0) + (if k = 0 \<or> k = 1 then 32 else 0)
          + (if k = 1 \<or> k = 4 then 32 else 0)"
    by (auto simp: facing_def)
  have p4: "link_chunks_at p3 1 EDGE_RIGHT \<lparr>r = 0, c = 1\<rparr> (Suc (Suc 0)) EDGE_LEFT \<lparr>r = 0, c = 1 + 1\<rparr>
            = Inl OutOfBounds"
    using c3 by (intro link_comb_overflow) (simp_all add: facing_def)
  have b00: "n_create_portals_body 0 0 (comb_map, 0, [])
             = Inr (p2, 2, [(0, EDGE_BOT, 3, EDGE_TOP), (0, EDGE_RIGHT, Suc 0, EDGE_LEFT)])"
    using p1 p2 by (simp add: n_create_portals_body_def Let_def c0 c1)
  have b01: "n_create_portals_body 0 (Suc 0) (p2, 2, [(0, EDGE_BOT, 3, EDGE_TOP), (0, EDGE_RIGHT, Suc 0, EDGE_LEFT)])
             = Inl OutOfBounds"
    using p3 p4 by (simp add: n_create_portals_body_def Let_def c2 c3)
  show ?thesis
    unfolding n_create_portals_loops_def c0 for_upto_2 for_upto_3 by (simp add: b00 b01)
qed

text \<open>
  One edge adds at most 32 portals to a chunk. On two facing chunks that hold at most 32
  portals each, a call of \<^verbatim>\<open>n_link_chunks\<close> returns: every write to \<^verbatim>\<open>portals[]\<close> is inside the
  array. Whenever a call on chunks that hold at most \<^verbatim>\<open>MAX_PORTALS_PER_CHUNK\<close> portals returns,
  it has added at most 32 portals to each chunk and neither count exceeds
  \<^verbatim>\<open>MAX_PORTALS_PER_CHUNK\<close>. The exact condition is \<open>n_link_chunks_cases\<close>.
\<close>

lemma n_link_chunks_capacity:
  fixes a b :: "('w::zero) nav_chunk"
  assumes "a_ptr < b_ptr" and "facing a_type b_type"
    and "num_portals a \<le> MAX_PORTALS_PER_CHUNK" and "num_portals b \<le> MAX_PORTALS_PER_CHUNK"
  shows "(num_portals a \<le> 32 \<and> num_portals b \<le> 32 \<longrightarrow>
           (\<exists>a' b'. n_link_chunks a_ptr a a_type a_coord b_ptr b b_type b_coord = Inr (a', b'))) \<and>
         (\<forall>a' b'. n_link_chunks a_ptr a a_type a_coord b_ptr b b_type b_coord = Inr (a', b') \<longrightarrow>
            num_portals a' \<le> MAX_PORTALS_PER_CHUNK \<and> num_portals b' \<le> MAX_PORTALS_PER_CHUNK \<and>
            num_portals a \<le> num_portals a' \<and> num_portals a' \<le> num_portals a + 32 \<and>
            num_portals b \<le> num_portals b' \<and> num_portals b' \<le> num_portals b + 32)"
proof -
  define sp where "sp = link_spans a a_type b b_type"
  have le: "opened sp \<le> 32"
    unfolding sp_def by (rule opened_link_spans_le)
  have len: "length (fst sp) \<le> opened sp"
    by (simp add: opened_def)
  show ?thesis
    unfolding n_link_chunks_cases [OF assms] sp_def [symmetric]
    using le len by auto
qed

lemma n_link_chunks_capacity_comb:
  "\<exists>a' b'. n_link_chunks 0 comb_chunk EDGE_BOT \<lparr>r = 0, c = 0\<rparr> 1 comb_chunk EDGE_TOP \<lparr>r = 1, c = 0\<rparr>
             = Inr (a', b') \<and>
           num_portals a' \<le> MAX_PORTALS_PER_CHUNK \<and> num_portals b' \<le> MAX_PORTALS_PER_CHUNK \<and>
           num_portals a' \<le> num_portals comb_chunk + 32"
proof -
  have h: "(0::nat) < 1" "facing EDGE_BOT EDGE_TOP" "num_portals comb_chunk \<le> MAX_PORTALS_PER_CHUNK"
    by (simp_all add: facing_def comb_chunk_def)
  have small: "num_portals comb_chunk \<le> 32"
    by (simp add: comb_chunk_def)
  note cap = n_link_chunks_capacity [OF h(1,2,3,3), of "\<lparr>r = 0, c = 0\<rparr>" "\<lparr>r = 1, c = 0\<rparr>"]
  from cap small obtain a' b' where
    run: "n_link_chunks 0 comb_chunk EDGE_BOT \<lparr>r = 0, c = 0\<rparr> 1 comb_chunk EDGE_TOP \<lparr>r = 1, c = 0\<rparr> = Inr (a', b')"
    by blast
  with cap show ?thesis by blast
qed

text \<open>
  Portal discovery on the comb map, three chunks wide and two high, every shared edge
  crossable at its even positions: it writes \<^verbatim>\<open>portals[64]\<close> of chunk 1.
\<close>

lemma n_create_portals_comb_overflow: "n_create_portals comb_map = Inl OutOfBounds"
  by (simp add: n_create_portals_def n_create_portals_loops_comb)

section \<open>Debug overlay: the draw calls\<close>

lemma for_upto_append:
  assumes "for_upto n body qs0 = Inr qs'"
    and "\<And>k qs qs1. k < n \<Longrightarrow> body k qs = Inr qs1 \<Longrightarrow> qs1 = qs @ g k"
  shows "qs' = qs0 @ concat (map g [0..<n])"
proof (rule for_upto_partial [OF assms(1), where I = "\<lambda>j qs. qs = qs0 @ concat (map g [0..<j])"])
  show "qs0 = qs0 @ concat (map g [0..<0])" by simp
next
  fix j t t'
  assume j: "j < n" and t: "t = qs0 @ concat (map g [0..<j])" and run: "body j t = Inr t'"
  have "t' = t @ g j" by (rule assms(2) [OF j run])
  with t show "t' = qs0 @ concat (map g [0..<Suc j])" by simp
qed

lemma upto_as_map: "[lo..hi] = map (\<lambda>k. lo + int k) [0..<nat (hi - lo + 1)]"
proof (induction "nat (hi - lo + 1)" arbitrary: hi)
  case 0
  then show ?case by simp
next
  case (Suc n)
  then have hi: "lo \<le> hi" and n: "n = nat (hi - 1 - lo + 1)" and hi_eq: "hi = lo + int n"
    by linarith+
  have "[lo..hi] = [lo..hi - 1] @ [hi]"
    using hi by (simp add: upto_rec2)
  also have "[lo..hi - 1] = map (\<lambda>k. lo + int k) [0..<n]"
    using Suc.hyps(1) [OF n] n by simp
  finally have "[lo..hi] = map (\<lambda>k. lo + int k) [0..<n] @ [lo + int n]"
    using hi_eq by simp
  also have "\<dots> = map (\<lambda>k. lo + int k) [0..<Suc n]"
    by simp
  finally show ?case
    unfolding Suc.hyps(2) [symmetric] .
qed

lemma for_range_append:
  assumes "for_range lo hi body qs0 = Inr qs'"
    and "\<And>x qs qs1. body x qs = Inr qs1 \<Longrightarrow> qs1 = qs @ g x"
  shows "qs' = qs0 @ concat (map g [lo..hi])"
proof -
  have "qs' = qs0 @ concat (map (\<lambda>k. g (lo + int k)) [0..<nat (hi - lo + 1)])"
    using assms(1) unfolding for_range_def
    by (rule for_upto_append) (rule assms(2))
  then show ?thesis
    by (simp add: upto_as_map [of lo hi] comp_def)
qed

lemma n_render_portals_Inr:
  assumes "n_render_portals ch = Inr quads"
  shows "quads = concat (map (\<lambda>i. portal_quads (portals ch i)) [0..<num_portals ch])"
proof -
  have "quads = [] @ concat (map (\<lambda>i. portal_quads (portals ch i)) [0..<num_portals ch])"
  proof (rule for_upto_append [OF assms [unfolded n_render_portals_def]])
    fix i and qs qs1 :: "quad list"
    assume run: "(if \<not> i < MAX_PORTALS_PER_CHUNK then Inl OutOfBounds
       else
         let port = portals ch i;
             r_start = min (r (fst (endpoints port))) (r (snd (endpoints port)));
             r_end = max (r (fst (endpoints port))) (r (snd (endpoints port)))
         in for_range r_start r_end (\<lambda>r.
              let c_start = min (c (fst (endpoints port))) (c (snd (endpoints port)));
                  c_end = max (c (fst (endpoints port))) (c (snd (endpoints port)))
              in for_range c_start c_end (\<lambda>c quads.
                   if \<not> length quads < 2 * FIELD_RES_C + 2 * FIELD_RES_R then Inl OutOfBounds
                   else Inr (quads @ [(r, c, (1, 1, 0))]))) qs) = Inr qs1"
    then have "for_range (min (r (fst (endpoints (portals ch i)))) (r (snd (endpoints (portals ch i)))))
          (max (r (fst (endpoints (portals ch i)))) (r (snd (endpoints (portals ch i)))))
          (\<lambda>row. for_range (min (c (fst (endpoints (portals ch i)))) (c (snd (endpoints (portals ch i)))))
                    (max (c (fst (endpoints (portals ch i)))) (c (snd (endpoints (portals ch i)))))
                    (\<lambda>col quads.
                       if \<not> length quads < 2 * FIELD_RES_C + 2 * FIELD_RES_R then Inl OutOfBounds
                       else Inr (quads @ [(row, col, (1, 1, 0))]))) qs = Inr qs1"
      by (simp add: Let_def split: if_splits)
    then show "qs1 = qs @ portal_quads (portals ch i)"
      unfolding portal_quads_def
    proof (rule for_range_append)
      fix row and qs' qs1' :: "quad list"
      assume "for_range (min (c (fst (endpoints (portals ch i)))) (c (snd (endpoints (portals ch i)))))
                    (max (c (fst (endpoints (portals ch i)))) (c (snd (endpoints (portals ch i)))))
                    (\<lambda>col quads.
                       if \<not> length quads < 2 * FIELD_RES_C + 2 * FIELD_RES_R then Inl OutOfBounds
                       else Inr (quads @ [(row, col, (1, 1, 0))])) qs' = Inr qs1'"
      then have "qs1' = qs' @ concat (map (\<lambda>col. [(row, col, (1, 1, 0))])
                  [min (c (fst (endpoints (portals ch i)))) (c (snd (endpoints (portals ch i)))) ..
                   max (c (fst (endpoints (portals ch i)))) (c (snd (endpoints (portals ch i))))])"
        by (rule for_range_append) (simp split: if_splits)
      then show "qs1' = qs' @ map (\<lambda>col. (row, col, (1, 1, 0)))
                  [min (c (fst (endpoints (portals ch i)))) (c (snd (endpoints (portals ch i)))) ..
                   max (c (fst (endpoints (portals ch i)))) (c (snd (endpoints (portals ch i))))]"
        by (simp add: concat_map_singleton)
    qed
  qed
  then show ?thesis by simp
qed

lemma cell_quads_row:
  fixes ch :: "'w nav_chunk"
  shows "for_upto 64 (\<lambda>c quads.
            Inr (quads @ [(int i, int c,
                   if cost_base ch (cell i c) = COST_IMPASSABLE then (1, 0, 0) else (0, 1, 0))]))
           (map (cell_quad ch) [0..<i * 64])
         = Inr (map (cell_quad ch) [0..<Suc i * 64])"
proof -
  have "for_upto 64 (\<lambda>c quads.
            Inr (quads @ [(int i, int c,
                   if cost_base ch (cell i c) = COST_IMPASSABLE then (1, 0, 0) else (0, 1, 0))]))
           (map (cell_quad ch) [0..<i * 64 + 0])
         = Inr (map (cell_quad ch) [0..<i * 64 + 64])"
  proof (rule for_upto_closed [where F = "\<lambda>j. map (cell_quad ch) [0..<i * 64 + j]"])
    fix j :: nat assume "j < 64"
    then have "cell_quad ch (i * 64 + j) =
        (int i, int j, if cost_base ch (cell i j) = COST_IMPASSABLE then (1, 0, 0) else (0, 1, 0))"
      by (simp add: cell_quad_def cell_def)
    then show "Inr (map (cell_quad ch) [0..<i * 64 + j] @
                 [(int i, int j, if cost_base ch (cell i j) = COST_IMPASSABLE then (1, 0, 0) else (0, 1, 0))])
               = Inr (map (cell_quad ch) [0..<i * 64 + Suc j])"
      by simp
  qed
  then show ?thesis by (simp add: add.commute)
qed

lemma cell_quads_all:
  fixes ch :: "'w nav_chunk"
  shows "for_upto 64 (\<lambda>r. for_upto 64 (\<lambda>c quads.
            Inr (quads @ [(int r, int c,
                   if cost_base ch (cell r c) = COST_IMPASSABLE then (1, 0, 0) else (0, 1, 0))]))) []
         = Inr (map (cell_quad ch) [0..<4096])"
proof -
  have "for_upto 64 (\<lambda>r. for_upto 64 (\<lambda>c quads.
            Inr (quads @ [(int r, int c,
                   if cost_base ch (cell r c) = COST_IMPASSABLE then (1, 0, 0) else (0, 1, 0))])))
          (map (cell_quad ch) [0..<0 * 64])
         = Inr (map (cell_quad ch) [0..<64 * 64])"
    by (rule for_upto_closed [where F = "\<lambda>i. map (cell_quad ch) [0..<i * 64]"]) (rule cell_quads_row)
  then show ?thesis by simp
qed

text \<open>\<^verbatim>\<open>N_RenderPathableChunk\<close> in terms of \<^verbatim>\<open>n_render_portals\<close>: the cell loop always runs to its end.\<close>

lemma N_RenderPathableChunk_eq:
  fixes priv :: "'w nav_private"
  assumes "0 \<le> chunk_r" "nat chunk_r < height priv" "0 \<le> chunk_c" "nat chunk_c < width priv"
    and "ch = chunks priv (CHUNK_IDX (nat chunk_r) (width priv) (nat chunk_c))"
  shows "N_RenderPathableChunk priv chunk_r chunk_c =
         seq (n_render_portals ch) (\<lambda>portal_quads. Inr [portal_quads, map (cell_quad ch) [0..<4096]])"
  using assms(1-4) unfolding N_RenderPathableChunk_def Let_def assms(5) cell_quads_all
  by simp

text \<open>
  Claim C10, as amended. Whenever the overlay of a chunk returns, it has made two draw
  calls: first the yellow quads, one per cell of each portal's span, portal by portal;
  then the \<^verbatim>\<open>FIELD_RES_R * FIELD_RES_C\<close> quads of the cost cells in row-major order, red where
  the cell is \<^verbatim>\<open>COST_IMPASSABLE\<close> and green elsewhere.
\<close>

theorem N_RenderPathableChunk_draws:
  fixes priv :: "'w nav_private"
  assumes "N_RenderPathableChunk priv chunk_r chunk_c = Inr draws"
    and "ch = chunks priv (CHUNK_IDX (nat chunk_r) (width priv) (nat chunk_c))"
  shows "draws = [concat (map (\<lambda>i. portal_quads (portals ch i)) [0..<num_portals ch]),
                  map (cell_quad ch) [0..<FIELD_RES_R * FIELD_RES_C]]"
proof -
  from assms(1) have ok: "0 \<le> chunk_r" "nat chunk_r < height priv" "0 \<le> chunk_c" "nat chunk_c < width priv"
    by (auto simp: N_RenderPathableChunk_def split: if_splits)
  from assms(1) [unfolded N_RenderPathableChunk_eq [OF ok assms(2)]]
  obtain pq where pq: "n_render_portals ch = Inr pq" and d: "draws = [pq, map (cell_quad ch) [0..<4096]]"
    by (auto simp: seq_eq_Inr)
  from n_render_portals_Inr [OF pq] d show ?thesis by simp
qed

lemma n_render_portals_overlay:
  "n_render_portals overlay_chunk = Inr [(0, 63, (1, 1, 0)), (1, 63, (1, 1, 0))]"
  by (simp add: n_render_portals_def overlay_chunk_def for_range_def for_upto_2 Let_def)

text \<open>
  The claim as stated fails on a chunk with one portal that spans two cells of its right
  edge: the draw call with the yellow quads comes first, the cell quads are emitted after it.
\<close>

theorem N_RenderPathableChunk_portals_first:
  "N_RenderPathableChunk overlay_map 0 0 =
     Inr [[(0, 63, (1, 1, 0)), (1, 63, (1, 1, 0))], map (cell_quad overlay_chunk) [0..<4096]]"
  by (subst N_RenderPathableChunk_eq [where ch = overlay_chunk])
    (simp_all add: overlay_map_def n_render_portals_overlay)

theorem N_RenderPathableChunk_draws_witness:
  "N_RenderPathableChunk overlay_map 0 0 =
     Inr [[(0, 63, (1, 1, 0)), (1, 63, (1, 1, 0))], map (cell_quad overlay_chunk) [0..<4096]] \<and>
   [[(0, 63, (1, 1, 0)), (1, 63, (1, 1, 0))], map (cell_quad overlay_chunk) [0..<4096]] =
     [concat (map (\<lambda>i. portal_quads (portals overlay_chunk i)) [0..<num_portals overlay_chunk]),
      map (cell_quad overlay_chunk) [0..<FIELD_RES_R * FIELD_RES_C]]"
proof -
  have run: "N_RenderPathableChunk overlay_map 0 0 =
     Inr [[(0, 63, (1, 1, 0)), (1, 63, (1, 1, 0))], map (cell_quad overlay_chunk) [0..<4096]]"
    by (subst N_RenderPathableChunk_eq [where ch = overlay_chunk])
      (simp_all add: overlay_map_def n_render_portals_overlay)
  have ch: "overlay_chunk = chunks overlay_map (CHUNK_IDX (nat 0) (width overlay_map) (nat 0))"
    by (simp add: overlay_map_def)
  from N_RenderPathableChunk_draws [OF run ch] run show ?thesis
    by simp
qed

section \<open>Portal linker: the edges it adds\<close>

lemma add_edges_Nil [simp]: "add_edges port [] = port"
proof -
  have "(\<lambda>m. if num_neighbours port \<le> m \<and> m < num_neighbours port + length ([] :: 'a edge list)
             then [] ! (m - num_neighbours port) else edges port m) = edges port"
    by (rule ext) auto
  then show ?thesis by (simp add: add_edges_def)
qed

lemma add_edges_sel [simp]:
  "endpoints (add_edges port es) = endpoints port"
  "chunk (add_edges port es) = chunk port"
  "connected (add_edges port es) = connected port"
  "num_neighbours (add_edges port es) = num_neighbours port + length es"
  by (simp_all add: add_edges_def)

lemma add_edges_snoc:
  "(add_edges port es)\<lparr>edges := (edges (add_edges port es))(num_neighbours port + length es := e),
                        num_neighbours := Suc (num_neighbours port + length es)\<rparr>
   = add_edges port (es @ [e])"
proof -
  have "(\<lambda>m. if num_neighbours port \<le> m \<and> m < num_neighbours port + length es
             then es ! (m - num_neighbours port) else edges port m)
          (num_neighbours port + length es := e)
        = (\<lambda>m. if num_neighbours port \<le> m \<and> m < num_neighbours port + length (es @ [e])
                then (es @ [e]) ! (m - num_neighbours port) else edges port m)"
    by (rule ext) (auto simp: nth_append)
  then show ?thesis by (simp add: add_edges_def)
qed

lemma edges_to_Suc:
  "edges_to A p ch i (Suc n) = edges_to A p ch i n @ edge_to A p ch i n"
  by (simp add: edges_to_def)

lemma length_edge_to: "length (edge_to A p ch i j) \<le> (if i = j then 0 else 1)"
  by (simp add: edge_to_def split: option.splits)

lemma length_edges_to: "length (edges_to A p ch i n) \<le> n - (if i < n then 1 else 0)"
proof (induction n)
  case 0
  then show ?case by (simp add: edges_to_def)
next
  case (Suc n)
  from length_edge_to [of A p ch i n] Suc show ?case
    by (auto simp: edges_to_Suc split: if_splits)
qed

lemma linker_state_sel [simp]:
  "num_portals (linker_state A p ch i j) = num_portals ch"
  "cost_base (linker_state A p ch i j) = cost_base ch"
  "midpoint (portals (linker_state A p ch i j) k) = midpoint (portals ch k)"
  "midpoint_fits (portals (linker_state A p ch i j) k) = midpoint_fits (portals ch k)"
  by (simp_all add: linker_state_def midpoint_def midpoint_fits_def)

lemma linker_state_fields [simp]:
  "endpoints (portals (linker_state A p ch i j) k) = endpoints (portals ch k)"
  "connected (portals (linker_state A p ch i j) k) = connected (portals ch k)"
  "chunk (portals (linker_state A p ch i j) k) = chunk (portals ch k)"
  by (simp_all add: linker_state_def)

lemma linker_state_row: "linker_state A p ch i (num_portals ch) = linker_state A p ch (Suc i) 0"
  unfolding linker_state_def
  by (rule arg_cong [where f = "\<lambda>f. ch\<lparr>portals := f\<rparr>"]) (auto simp: fun_eq_iff edges_to_def)

lemma linker_state_start: "linker_state A p ch 0 0 = ch"
proof -
  have "(\<lambda>k. if k < 0 then add_edges (portals ch k) (edges_to A p ch k (num_portals ch))
              else if k = 0 then add_edges (portals ch k) (edges_to A p ch k 0)
              else portals ch k) = portals ch"
    by (rule ext) (simp add: edges_to_def)
  then show ?thesis by (simp add: linker_state_def)
qed

lemma link_pair_alt:
  assumes "midpoint_fits (portals ch i)" and "midpoint_fits (portals ch j)"
  shows "link_pair A p i j ch =
     (if i = j then Inr ch
      else if \<not> (i < MAX_PORTALS_PER_CHUNK \<and> j < MAX_PORTALS_PER_CHUNK) then Inl OutOfBounds
      else case A (midpoint (portals ch i)) (midpoint (portals ch j)) (cost_base ch) of
             None \<Rightarrow> Inr ch
           | Some path_cost \<Rightarrow>
               if \<not> num_neighbours (portals ch i) < MAX_PORTALS_PER_CHUNK - 1 then Inl OutOfBounds
               else Inr (ch\<lparr>portals := (portals ch)(i :=
                      (portals ch i)\<lparr>edges := (edges (portals ch i))(num_neighbours (portals ch i) :=
                                       \<lparr>neighbour = PortalAt p j, cost = path_cost\<rparr>),
                           num_neighbours := num_neighbours (portals ch i) + 1\<rparr>)\<rparr>))"
  using assms by (simp add: link_pair_def midpoint_def midpoint_fits_def c_add_def Let_def)

text \<open>A pair whose first portal has row coordinates that sum beyond \<^verbatim>\<open>INT_MAX\<close>.\<close>

lemma link_pair_overflow:
  assumes "i \<noteq> j" and "i < MAX_PORTALS_PER_CHUNK" and "j < MAX_PORTALS_PER_CHUNK"
    and "2 ^ 31 \<le> r (fst (endpoints (portals ch i))) + r (snd (endpoints (portals ch i)))"
  shows "link_pair A p i j ch = Inl IntOverflow"
  using assms by (simp add: link_pair_def c_add_def Let_def)

lemma linker_state_portal_i:
  "portals (linker_state A p ch i j) i = add_edges (portals ch i) (edges_to A p ch i j)"
  by (simp add: linker_state_def)

lemma linker_state_update:
  "(linker_state A p ch i j)\<lparr>portals := (portals (linker_state A p ch i j))
      (i := add_edges (portals ch i) (edges_to A p ch i (Suc j)))\<rparr>
   = linker_state A p ch i (Suc j)"
proof -
  have "(\<lambda>k. if k < i then add_edges (portals ch k) (edges_to A p ch k (num_portals ch))
              else if k = i then add_edges (portals ch k) (edges_to A p ch k j)
              else portals ch k)
          (i := add_edges (portals ch i) (edges_to A p ch i (Suc j)))
        = (\<lambda>k. if k < i then add_edges (portals ch k) (edges_to A p ch k (num_portals ch))
              else if k = i then add_edges (portals ch k) (edges_to A p ch k (Suc j))
              else portals ch k)"
    by (rule ext) simp
  then show ?thesis by (simp add: linker_state_def)
qed

lemma midpoint_add_edges [simp]: "midpoint (add_edges port es) = midpoint port"
  by (simp add: midpoint_def add_edges_def)

lemma midpoint_fits_add_edges [simp]: "midpoint_fits (add_edges port es) = midpoint_fits port"
  by (simp add: midpoint_fits_def)

lemma linker_state_same:
  assumes "edges_to A p ch i j' = edges_to A p ch i j"
  shows "linker_state A p ch i j' = linker_state A p ch i j"
proof -
  have "(\<lambda>k. if k < i then add_edges (portals ch k) (edges_to A p ch k (num_portals ch))
              else if k = i then add_edges (portals ch k) (edges_to A p ch k j')
              else portals ch k)
        = (\<lambda>k. if k < i then add_edges (portals ch k) (edges_to A p ch k (num_portals ch))
              else if k = i then add_edges (portals ch k) (edges_to A p ch k j)
              else portals ch k)"
    using assms by (intro ext) simp
  then show ?thesis by (simp add: linker_state_def)
qed

lemma link_pair_closed:
  assumes i: "i < num_portals ch" and j: "j < num_portals ch"
    and np: "num_portals ch \<le> MAX_PORTALS_PER_CHUNK"
    and room: "num_neighbours (portals ch i) + (num_portals ch - 1) \<le> MAX_PORTALS_PER_CHUNK - 1"
    and fi: "midpoint_fits (portals ch i)" and fj: "midpoint_fits (portals ch j)"
  shows "link_pair A p i j (linker_state A p ch i j) = Inr (linker_state A p ch i (Suc j))"
proof (cases "i = j")
  case True
  then have "edges_to A p ch i (Suc j) = edges_to A p ch i j"
    by (simp add: edges_to_Suc edge_to_def)
  then have "linker_state A p ch i (Suc j) = linker_state A p ch i j"
    by (rule linker_state_same)
  with True fi fj show ?thesis
    by (simp add: link_pair_alt)
next
  case False
  from i j np have bounds: "i < 64" "j < 64" by simp_all
  show ?thesis
  proof (cases "A (midpoint (portals ch i)) (midpoint (portals ch j)) (cost_base ch)")
    case None
    with False have "edges_to A p ch i (Suc j) = edges_to A p ch i j"
      by (simp add: edges_to_Suc edge_to_def)
    then have "linker_state A p ch i (Suc j) = linker_state A p ch i j"
      by (rule linker_state_same)
    with False None bounds fi fj show ?thesis
      by (simp add: link_pair_alt)
  next
    case (Some w)
    with False have nxt: "edges_to A p ch i (Suc j) = edges_to A p ch i j @ [\<lparr>neighbour = PortalAt p j, cost = w\<rparr>]"
      by (simp add: edges_to_Suc edge_to_def)
    have "length (edges_to A p ch i j) \<le> j - (if i < j then 1 else 0)"
      by (rule length_edges_to)
    with False i j have "length (edges_to A p ch i j) + 2 \<le> num_portals ch"
      by (auto split: if_splits)
    with room have fits: "num_neighbours (portals ch i) + length (edges_to A p ch i j) < 63"
      by simp
    show ?thesis
      using False Some bounds fits fi fj
      by (simp add: link_pair_alt linker_state_portal_i add_edges_snoc nxt linker_state_update [symmetric])
  qed
qed

text \<open>
  The closed form of \<^verbatim>\<open>n_link_chunk_portals\<close> when the edge arrays have room and the sums of
  endpoint coordinates are \<^verbatim>\<open>int\<close>s.
\<close>

lemma n_link_chunk_portals_closed:
  assumes np: "num_portals ch \<le> MAX_PORTALS_PER_CHUNK"
    and room: "\<And>i. i < num_portals ch \<Longrightarrow>
                 num_neighbours (portals ch i) + (num_portals ch - 1) \<le> MAX_PORTALS_PER_CHUNK - 1"
    and fit: "\<And>i. i < num_portals ch \<Longrightarrow> midpoint_fits (portals ch i)"
  shows "n_link_chunk_portals A p ch = Inr (linker_state A p ch (num_portals ch) 0)"
proof -
  have "for_upto (num_portals ch) (\<lambda>i. for_upto (num_portals ch) (\<lambda>j. link_pair A p i j))
          (linker_state A p ch 0 0) = Inr (linker_state A p ch (num_portals ch) 0)"
  proof (rule for_upto_closed [where F = "\<lambda>i. linker_state A p ch i 0"])
    fix i assume i: "i < num_portals ch"
    have "for_upto (num_portals ch) (\<lambda>j. link_pair A p i j) (linker_state A p ch i 0)
          = Inr (linker_state A p ch i (num_portals ch))"
    proof (rule for_upto_closed [where F = "\<lambda>j. linker_state A p ch i j"])
      fix j assume j: "j < num_portals ch"
      show "link_pair A p i j (linker_state A p ch i j) = Inr (linker_state A p ch i (Suc j))"
        by (rule link_pair_closed [OF i j np room [OF i] fit [OF i] fit [OF j]])
    qed
    then show "for_upto (num_portals ch) (\<lambda>j. link_pair A p i j) (linker_state A p ch i 0)
               = Inr (linker_state A p ch (Suc i) 0)"
      by (simp add: linker_state_row)
  qed
  then show ?thesis
    by (simp add: n_link_chunk_portals_def linker_state_start)
qed

lemma edges_add_edges:
  "map (edges (add_edges port es)) [num_neighbours port..<num_neighbours port + length es] = es"
  by (rule nth_equalityI) (simp_all add: add_edges_def)

lemma edges_to_mem:
  "\<lparr>neighbour = PortalAt p j, cost = w\<rparr> \<in> set (edges_to A p ch i n) \<longleftrightarrow>
     j < n \<and> i \<noteq> j \<and> A (midpoint (portals ch i)) (midpoint (portals ch j)) (cost_base ch) = Some w"
  by (auto simp: edges_to_def edge_to_def split: option.splits if_splits)

lemma portals_linker_state_end:
  assumes "i < num_portals ch"
  shows "portals (linker_state A p ch (num_portals ch) 0) i
         = add_edges (portals ch i) (edges_to A p ch i (num_portals ch))"
  using assms by (simp add: linker_state_def)

lemma edges_add_edges_below:
  "m < num_neighbours port \<Longrightarrow> edges (add_edges port es) m = edges port m"
  by (simp add: add_edges_def)

text \<open>
  Claim C8. When the edge arrays have room and, for each portal, the two sums of its
  endpoints' coordinates are \<^verbatim>\<open>int\<close>s (as they are for the portals that discovery records,
  whose coordinates lie in 0, \<dots>, 63), \<^verbatim>\<open>n_link_chunk_portals\<close> returns, and leaves
  the portal count, the cost grid and each portal's chunk, endpoints and counterpart as they
  were. To the edge list of each portal \<open>i\<close> it appends, for \<open>j\<close> from 0 up to the portal
  count, nothing when \<open>j = i\<close> or the pathfinder, called on the chunk's cost grid from the
  midpoint of portal \<open>i\<close> to the midpoint of portal \<open>j\<close>, reports no path, and otherwise the
  edge to portal \<open>j\<close> with the returned cost.
\<close>

theorem n_link_chunk_portals_edges:
  assumes "num_portals ch \<le> MAX_PORTALS_PER_CHUNK"
    and "\<forall>i<num_portals ch.
           num_neighbours (portals ch i) + (num_portals ch - 1) \<le> MAX_PORTALS_PER_CHUNK - 1"
    and "\<forall>i<num_portals ch. midpoint_fits (portals ch i)"
  shows "\<exists>ch'. n_link_chunk_portals AStar_GridPath chunk_ptr ch = Inr ch' \<and>
           num_portals ch' = num_portals ch \<and> cost_base ch' = cost_base ch \<and>
           (\<forall>i<num_portals ch.
              chunk (portals ch' i) = chunk (portals ch i) \<and>
              endpoints (portals ch' i) = endpoints (portals ch i) \<and>
              connected (portals ch' i) = connected (portals ch i) \<and>
              (\<forall>m<num_neighbours (portals ch i). edges (portals ch' i) m = edges (portals ch i) m) \<and>
              num_neighbours (portals ch' i) =
                num_neighbours (portals ch i) + length (edges_to AStar_GridPath chunk_ptr ch i (num_portals ch)) \<and>
              map (edges (portals ch' i)) [num_neighbours (portals ch i)..<num_neighbours (portals ch' i)] =
                edges_to AStar_GridPath chunk_ptr ch i (num_portals ch) \<and>
              (\<forall>j w. \<lparr>neighbour = PortalAt chunk_ptr j, cost = w\<rparr>
                        \<in> set (edges_to AStar_GridPath chunk_ptr ch i (num_portals ch)) \<longleftrightarrow>
                     j < num_portals ch \<and> i \<noteq> j \<and>
                     AStar_GridPath (midpoint (portals ch i)) (midpoint (portals ch j)) (cost_base ch) = Some w))"
proof -
  from assms have run: "n_link_chunk_portals AStar_GridPath chunk_ptr ch
                        = Inr (linker_state AStar_GridPath chunk_ptr ch (num_portals ch) 0)"
    by (intro n_link_chunk_portals_closed) simp_all
  show ?thesis
    unfolding run
    by (intro exI [of _ "linker_state AStar_GridPath chunk_ptr ch (num_portals ch) 0"] conjI allI impI)
      (simp_all add: portals_linker_state_end edges_add_edges edges_add_edges_below edges_to_mem)
qed

lemma linker_chunk_edges_to:
  "edges_to manhattan 0 linker_chunk 0 3 = [\<lparr>neighbour = PortalAt 0 1, cost = 108\<rparr>]"
  "edges_to manhattan 0 linker_chunk (Suc 0) 3 = [\<lparr>neighbour = PortalAt 0 0, cost = 108\<rparr>]"
  by (simp_all add: edges_to_def edge_to_def manhattan_def linker_chunk_def midpoint_def c_div_def
      blank_portal_def upt_rec [of _ 3] upt_rec [of _ "numeral n" for n])

theorem n_link_chunk_portals_edges_witness:
  "\<exists>ch'. n_link_chunk_portals manhattan 0 linker_chunk = Inr ch' \<and>
         num_portals ch' = 3 \<and>
         endpoints (portals ch' 0) = (\<lparr>r = 2, c = 63\<rparr>, \<lparr>r = 5, c = 63\<rparr>) \<and>
         num_neighbours (portals ch' 0) = 1 \<and>
         edges (portals ch' 0) 0 = \<lparr>neighbour = PortalAt 0 1, cost = 108\<rparr> \<and>
         num_neighbours (portals ch' 1) = 1 \<and>
         edges (portals ch' 1) 0 = \<lparr>neighbour = PortalAt 0 0, cost = 108\<rparr>"
proof -
  have h: "num_portals linker_chunk \<le> MAX_PORTALS_PER_CHUNK"
    "\<forall>i<num_portals linker_chunk.
       num_neighbours (portals linker_chunk i) + (num_portals linker_chunk - 1) \<le> MAX_PORTALS_PER_CHUNK - 1"
    "\<forall>i<num_portals linker_chunk. midpoint_fits (portals linker_chunk i)"
    by (simp_all add: linker_chunk_def blank_portal_def midpoint_fits_def)
  have np: "num_portals linker_chunk = 3" and nn: "\<And>k. num_neighbours (portals linker_chunk k) = 0"
    and e0: "endpoints (portals linker_chunk 0) = (\<lparr>r = 2, c = 63\<rparr>, \<lparr>r = 5, c = 63\<rparr>)"
    by (simp_all add: linker_chunk_def blank_portal_def)
  from n_link_chunk_portals_edges [OF h, of manhattan 0] obtain ch' where
    run: "n_link_chunk_portals manhattan 0 linker_chunk = Inr ch'" and cnt: "num_portals ch' = 3"
    and each: "\<And>i. i < 3 \<Longrightarrow>
       endpoints (portals ch' i) = endpoints (portals linker_chunk i) \<and>
       num_neighbours (portals ch' i) = length (edges_to manhattan 0 linker_chunk i 3) \<and>
       map (edges (portals ch' i)) [0..<num_neighbours (portals ch' i)] = edges_to manhattan 0 linker_chunk i 3"
    unfolding np nn by auto
  have l0: "length (edges_to manhattan 0 linker_chunk 0 3) = Suc 0"
    and l1: "length (edges_to manhattan 0 linker_chunk (Suc 0) 3) = Suc 0"
    by (simp_all add: linker_chunk_edges_to)
  from each [of 0] have p0:
    "endpoints (portals ch' 0) = (\<lparr>r = 2, c = 63\<rparr>, \<lparr>r = 5, c = 63\<rparr>)"
    "num_neighbours (portals ch' 0) = Suc 0"
    unfolding l0 e0 by simp_all
  from each [of "Suc 0"] have p1: "num_neighbours (portals ch' (Suc 0)) = Suc 0"
    unfolding l1 by simp
  from each [of 0] have "map (edges (portals ch' 0)) [0..<Suc 0] = [\<lparr>neighbour = PortalAt 0 1, cost = 108\<rparr>]"
    unfolding p0(2) linker_chunk_edges_to by simp
  then have q0: "edges (portals ch' 0) 0 = \<lparr>neighbour = PortalAt 0 1, cost = 108\<rparr>"
    by simp
  from each [of "Suc 0"] have "map (edges (portals ch' (Suc 0))) [0..<Suc 0] = [\<lparr>neighbour = PortalAt 0 0, cost = 108\<rparr>]"
    unfolding p1 linker_chunk_edges_to by simp
  then have q1: "edges (portals ch' (Suc 0)) 0 = \<lparr>neighbour = PortalAt 0 0, cost = 108\<rparr>"
    by simp
  from run cnt p0 p1 q0 q1 show ?thesis by simp
qed

section \<open>Portal discovery: what every recorded portal satisfies\<close>

lemma portal_ok_iff:
  "portal_ok priv k m t \<longleftrightarrow>
     (\<exists>n m'. neighbour_across (width priv) (height priv) k t = Some n \<and>
        connected (portals (chunks priv k) m) = PortalAt n m' \<and>
        m' < num_portals (chunks priv n) \<and>
        connected (portals (chunks priv n) m') = PortalAt k m \<and>
        span_on_edge t (portals (chunks priv k) m) \<and>
        span_on_edge (opposite t) (portals (chunks priv n) m') \<and>
        endpoints (portals (chunks priv n) m') =
          (edge_pt (opposite t) (nat (along t (fst (endpoints (portals (chunks priv k) m))))),
           edge_pt (opposite t) (nat (along t (snd (endpoints (portals (chunks priv k) m)))))) \<and>
        span_crossable (cost_base (chunks priv k)) (cost_base (chunks priv n)) t (portals (chunks priv k) m) \<and>
        num_neighbours (portals (chunks priv k) m) = 0 \<and>
        chunk (portals (chunks priv k) m) = \<lparr>r = int (k div width priv), c = int (k mod width priv)\<rparr>)"
  unfolding portal_ok_def portal_span_def portal_link_def
  by (auto split: option.splits portal_ptr.splits)

text \<open>A recorded portal stays as it is when chunks only gain portals.\<close>

lemma portal_ok_mono:
  assumes ok: "portal_ok p k m t" and m: "m < num_portals (chunks p k)"
    and dims: "width p' = width p" "height p' = height p"
    and cost: "\<And>n. cost_base (chunks p' n) = cost_base (chunks p n)"
    and grow: "\<And>n. num_portals (chunks p n) \<le> num_portals (chunks p' n)"
    and old: "\<And>n j. j < num_portals (chunks p n) \<Longrightarrow> portals (chunks p' n) j = portals (chunks p n) j"
  shows "portal_ok p' k m t"
proof -
  from ok obtain n m' where
    nb: "neighbour_across (width p) (height p) k t = Some n"
    and conn: "connected (portals (chunks p k) m) = PortalAt n m'"
    and m': "m' < num_portals (chunks p n)"
    and rest: "connected (portals (chunks p n) m') = PortalAt k m"
      "span_on_edge t (portals (chunks p k) m)"
      "span_on_edge (opposite t) (portals (chunks p n) m')"
      "endpoints (portals (chunks p n) m') =
          (edge_pt (opposite t) (nat (along t (fst (endpoints (portals (chunks p k) m))))),
           edge_pt (opposite t) (nat (along t (snd (endpoints (portals (chunks p k) m))))))"
      "span_crossable (cost_base (chunks p k)) (cost_base (chunks p n)) t (portals (chunks p k) m)"
      "num_neighbours (portals (chunks p k) m) = 0"
      "chunk (portals (chunks p k) m) = \<lparr>r = int (k div width p), c = int (k mod width p)\<rparr>"
    unfolding portal_ok_iff by blast
  have m'': "m' < num_portals (chunks p' n)"
    using m' grow [of n] by simp
  show ?thesis
    unfolding portal_ok_iff dims cost old [OF m]
    using nb conn m'' rest by (simp add: old [OF m'])
qed

lemma cell_of_edge_pt: "cell_of (edge_pt t i) = edge_start t + i * link_stride t"
  by (cases t) (simp_all add: cell_of_def edge_pt_def edge_start_def link_stride_def cell_def)

lemma along_edge_pt [simp]: "along t (edge_pt t i) = int i"
  by (cases t) (simp_all add: along_def edge_pt_def)

lemma on_edge_edge_pt: "i < 64 \<Longrightarrow> on_edge t (edge_pt t i)"
  by (cases t) (simp_all add: on_edge_def along_def across_def edge_pt_def fixed_of_def)

lemma facing_opposite: "facing a_type b_type \<Longrightarrow> opposite a_type = b_type \<and> opposite b_type = a_type \<and> link_stride b_type = link_stride a_type"
  by (auto simp: facing_def opposite_def link_stride_def)

lemma linked_chunk_old:
  "m < num_portals a \<Longrightarrow> portals (linked_chunk a t cc p np st) m = portals a m"
  by (simp add: linked_chunk_def linked_portals_def)

lemma linked_chunk_new:
  "j < length (fst st) \<Longrightarrow>
   portals (linked_chunk a t cc p np st) (num_portals a + j) = span_portal cc t (PortalAt p (np + j)) (fst st ! j)"
  by (simp add: linked_chunk_def linked_portals_def)

lemma link_spans_ok:
  assumes "sp \<in> set (fst (link_spans a a_type b b_type))"
  shows "fst sp \<le> snd sp \<and> snd sp < 64 \<and> (\<forall>k. fst sp \<le> k \<and> k \<le> snd sp \<longrightarrow> crossable a a_type b b_type k)"
  using spans_ok_scan [of "crossable a a_type b b_type" 64 64] assms
  unfolding spans_ok_def link_spans_def by blast

text \<open>What a call of \<^verbatim>\<open>n_link_chunks\<close> that returns has done to the array of chunks.\<close>

lemma link_chunks_at_result:
  fixes p :: "('w::zero) nav_private"
  assumes run: "link_chunks_at p ai a_type a_coord bi b_type b_coord = Inr p'"
    and lt: "ai < bi" and facing: "facing a_type b_type"
    and np: "num_portals (chunks p ai) \<le> MAX_PORTALS_PER_CHUNK" "num_portals (chunks p bi) \<le> MAX_PORTALS_PER_CHUNK"
  shows "\<exists>spans.
      width p' = width p \<and> height p' = height p \<and>
      (\<forall>n. cost_base (chunks p' n) = cost_base (chunks p n)) \<and>
      (\<forall>n. num_portals (chunks p' n) = num_portals (chunks p n) + (if n = ai \<or> n = bi then length spans else 0)) \<and>
      (\<forall>n. num_portals (chunks p' n) \<le> MAX_PORTALS_PER_CHUNK \<or> (n \<noteq> ai \<and> n \<noteq> bi)) \<and>
      (\<forall>n j. j < num_portals (chunks p n) \<longrightarrow> portals (chunks p' n) j = portals (chunks p n) j) \<and>
      (\<forall>j < length spans.
         portals (chunks p' ai) (num_portals (chunks p ai) + j)
           = span_portal a_coord a_type (PortalAt bi (num_portals (chunks p bi) + j)) (spans ! j) \<and>
         portals (chunks p' bi) (num_portals (chunks p bi) + j)
           = span_portal b_coord b_type (PortalAt ai (num_portals (chunks p ai) + j)) (spans ! j) \<and>
         fst (spans ! j) \<le> snd (spans ! j) \<and> snd (spans ! j) < 64 \<and>
         (\<forall>k. fst (spans ! j) \<le> k \<and> k \<le> snd (spans ! j) \<longrightarrow>
              crossable (chunks p ai) a_type (chunks p bi) b_type k))"
proof -
  define sp where "sp = link_spans (chunks p ai) a_type (chunks p bi) b_type"
  define A where "A = linked_chunk (chunks p ai) a_type a_coord bi (num_portals (chunks p bi)) sp"
  define B where "B = linked_chunk (chunks p bi) b_type b_coord ai (num_portals (chunks p ai)) sp"
  from run have fits: "num_portals (chunks p ai) + opened sp \<le> 64" "num_portals (chunks p bi) + opened sp \<le> 64"
    and p': "p' = p\<lparr>chunks := (chunks p)(ai := A, bi := B)\<rparr>"
    unfolding link_chunks_at_cases [OF lt facing np] sp_def A_def B_def
    by (auto split: if_splits)
  have len: "length (fst sp) \<le> opened sp"
    by (simp add: opened_def)
  have ne: "ai \<noteq> bi" using lt by simp
  have geo: "\<And>j. j < length (fst sp) \<Longrightarrow>
         fst (fst sp ! j) \<le> snd (fst sp ! j) \<and> snd (fst sp ! j) < 64 \<and>
         (\<forall>k. fst (fst sp ! j) \<le> k \<and> k \<le> snd (fst sp ! j) \<longrightarrow>
              crossable (chunks p ai) a_type (chunks p bi) b_type k)"
    unfolding sp_def by (rule link_spans_ok) simp
  show ?thesis
  proof (intro exI [of _ "fst sp"] conjI allI impI)
    show "width p' = width p" "height p' = height p" by (simp_all add: p')
  next
    fix n show "cost_base (chunks p' n) = cost_base (chunks p n)"
      by (simp add: p' A_def B_def)
  next
    fix n show "num_portals (chunks p' n) = num_portals (chunks p n) + (if n = ai \<or> n = bi then length (fst sp) else 0)"
      using ne by (simp add: p' A_def B_def)
  next
    fix n show "num_portals (chunks p' n) \<le> MAX_PORTALS_PER_CHUNK \<or> (n \<noteq> ai \<and> n \<noteq> bi)"
      using ne fits len by (auto simp: p' A_def B_def)
  next
    fix n j assume "j < num_portals (chunks p n)"
    then show "portals (chunks p' n) j = portals (chunks p n) j"
      using ne by (auto simp: p' A_def B_def linked_chunk_old)
  next
    fix j assume j: "j < length (fst sp)"
    show "portals (chunks p' ai) (num_portals (chunks p ai) + j)
           = span_portal a_coord a_type (PortalAt bi (num_portals (chunks p bi) + j)) (fst sp ! j)"
      using ne by (simp add: p' A_def linked_chunk_new [OF j])
    show "portals (chunks p' bi) (num_portals (chunks p bi) + j)
           = span_portal b_coord b_type (PortalAt ai (num_portals (chunks p ai) + j)) (fst sp ! j)"
      by (simp add: p' B_def linked_chunk_new [OF j])
    show "fst (fst sp ! j) \<le> snd (fst sp ! j)" "snd (fst sp ! j) < 64"
      using geo [OF j] by simp_all
    fix k assume "fst (fst sp ! j) \<le> k \<and> k \<le> snd (fst sp ! j)"
    with geo [OF j] show "crossable (chunks p ai) a_type (chunks p bi) b_type k" by blast
  qed
qed

lemma span_portal_sel [simp]:
  "endpoints (span_portal cc t conn sp) = (edge_pt t (fst sp), edge_pt t (snd sp))"
  "connected (span_portal cc t conn sp) = conn"
  "chunk (span_portal cc t conn sp) = cc"
  "num_neighbours (span_portal cc t conn sp) = 0"
  by (simp_all add: span_portal_def)

lemma span_on_edge_span_portal:
  "fst sp \<le> snd sp \<Longrightarrow> snd sp < 64 \<Longrightarrow> span_on_edge t (span_portal cc t conn sp)"
  by (simp add: span_on_edge_def on_edge_edge_pt)

lemma span_crossable_span_portal:
  assumes "\<And>k. fst sp \<le> k \<and> k \<le> snd sp \<Longrightarrow>
             g (edge_start t + k * link_stride t) \<noteq> COST_IMPASSABLE \<and>
             g' (edge_start (opposite t) + k * link_stride (opposite t)) \<noteq> COST_IMPASSABLE"
  shows "span_crossable g g' t (span_portal cc t conn sp)"
  using assms by (simp add: span_crossable_def cell_of_edge_pt)

lemma portal_ok_new:
  assumes nb: "neighbour_across (width p) (height p) k t = Some n"
    and pk: "portals (chunks p k) m = span_portal kc t (PortalAt n m') sp"
    and pn: "portals (chunks p n) m' = span_portal nc (opposite t) (PortalAt k m) sp"
    and m': "m' < num_portals (chunks p n)"
    and sp: "fst sp \<le> snd sp" "snd sp < 64"
    and cross: "\<And>i. fst sp \<le> i \<and> i \<le> snd sp \<Longrightarrow>
       cost_base (chunks p k) (edge_start t + i * link_stride t) \<noteq> COST_IMPASSABLE \<and>
       cost_base (chunks p n) (edge_start (opposite t) + i * link_stride (opposite t)) \<noteq> COST_IMPASSABLE"
    and kc: "kc = \<lparr>r = int (k div width p), c = int (k mod width p)\<rparr>"
  shows "portal_ok p k m t"
proof -
  have "span_crossable (cost_base (chunks p k)) (cost_base (chunks p n)) t (span_portal kc t (PortalAt n m') sp)"
    by (rule span_crossable_span_portal) (rule cross)
  then show ?thesis
    unfolding portal_ok_iff pk
    using nb m' sp kc
    by (intro exI [of _ n] exI [of _ m']) (simp add: pn span_on_edge_span_portal)
qed

text \<open>A call of \<^verbatim>\<open>n_link_chunks\<close> on two adjacent chunks keeps what discovery maintains.\<close>

lemma discovered_link:
  fixes p :: "('w::zero) nav_private"
  assumes inv: "discovered p"
    and run: "link_chunks_at p ai a_type a_coord bi b_type b_coord = Inr p'"
    and lt: "ai < bi" and bi: "bi < width p * height p"
    and facing: "facing a_type b_type"
    and nb: "neighbour_across (width p) (height p) ai a_type = Some bi"
            "neighbour_across (width p) (height p) bi b_type = Some ai"
    and coords: "a_coord = \<lparr>r = int (ai div width p), c = int (ai mod width p)\<rparr>"
                "b_coord = \<lparr>r = int (bi div width p), c = int (bi mod width p)\<rparr>"
  shows "discovered p'"
proof -
  from lt bi have ai: "ai < width p * height p" by simp
  from inv ai bi have np: "num_portals (chunks p ai) \<le> MAX_PORTALS_PER_CHUNK"
    "num_portals (chunks p bi) \<le> MAX_PORTALS_PER_CHUNK"
    by (simp_all add: discovered_def)
  from link_chunks_at_result [OF run lt facing np] obtain spans where
    dims: "width p' = width p" "height p' = height p"
    and cost: "\<And>n. cost_base (chunks p' n) = cost_base (chunks p n)"
    and cnt: "\<And>n. num_portals (chunks p' n) = num_portals (chunks p n) + (if n = ai \<or> n = bi then length spans else 0)"
    and cap: "\<And>n. num_portals (chunks p' n) \<le> MAX_PORTALS_PER_CHUNK \<or> (n \<noteq> ai \<and> n \<noteq> bi)"
    and old: "\<And>n j. j < num_portals (chunks p n) \<Longrightarrow> portals (chunks p' n) j = portals (chunks p n) j"
    and new: "\<And>j. j < length spans \<Longrightarrow>
         portals (chunks p' ai) (num_portals (chunks p ai) + j)
           = span_portal a_coord a_type (PortalAt bi (num_portals (chunks p bi) + j)) (spans ! j) \<and>
         portals (chunks p' bi) (num_portals (chunks p bi) + j)
           = span_portal b_coord b_type (PortalAt ai (num_portals (chunks p ai) + j)) (spans ! j) \<and>
         fst (spans ! j) \<le> snd (spans ! j) \<and> snd (spans ! j) < 64 \<and>
         (\<forall>k. fst (spans ! j) \<le> k \<and> k \<le> snd (spans ! j) \<longrightarrow>
              crossable (chunks p ai) a_type (chunks p bi) b_type k)"
    by blast
  from facing have opp: "opposite a_type = b_type" "opposite b_type = a_type"
    "link_stride b_type = link_stride a_type"
    using facing_opposite by blast+
  have grow: "\<And>n. num_portals (chunks p n) \<le> num_portals (chunks p' n)"
    by (simp add: cnt)
  have fresh_a: "portal_ok p' ai (num_portals (chunks p ai) + j) a_type" if j: "j < length spans" for j
  proof (rule portal_ok_new [where sp = "spans ! j" and m' = "num_portals (chunks p bi) + j" and nc = b_coord])
    show "neighbour_across (width p') (height p') ai a_type = Some bi"
      unfolding dims by (rule nb)
    show "portals (chunks p' ai) (num_portals (chunks p ai) + j)
          = span_portal a_coord a_type (PortalAt bi (num_portals (chunks p bi) + j)) (spans ! j)"
      using new [OF j] by blast
    show "portals (chunks p' bi) (num_portals (chunks p bi) + j)
          = span_portal b_coord (opposite a_type) (PortalAt ai (num_portals (chunks p ai) + j)) (spans ! j)"
      unfolding opp using new [OF j] by blast
    show "num_portals (chunks p bi) + j < num_portals (chunks p' bi)"
      using j by (simp add: cnt)
    show "fst (spans ! j) \<le> snd (spans ! j)" "snd (spans ! j) < 64"
      using new [OF j] by blast+
    show "a_coord = \<lparr>r = int (ai div width p'), c = int (ai mod width p')\<rparr>"
      unfolding dims by (rule coords)
  next
    fix i assume "fst (spans ! j) \<le> i \<and> i \<le> snd (spans ! j)"
    with new [OF j] have "crossable (chunks p ai) a_type (chunks p bi) b_type i" by blast
    then show "cost_base (chunks p' ai) (edge_start a_type + i * link_stride a_type) \<noteq> COST_IMPASSABLE \<and>
       cost_base (chunks p' bi) (edge_start (opposite a_type) + i * link_stride (opposite a_type)) \<noteq> COST_IMPASSABLE"
      unfolding cost opp by (simp add: crossable_def can_cross_at_def)
  qed
  have fresh_b: "portal_ok p' bi (num_portals (chunks p bi) + j) b_type" if j: "j < length spans" for j
  proof (rule portal_ok_new [where sp = "spans ! j" and m' = "num_portals (chunks p ai) + j" and nc = a_coord])
    show "neighbour_across (width p') (height p') bi b_type = Some ai"
      unfolding dims by (rule nb)
    show "portals (chunks p' bi) (num_portals (chunks p bi) + j)
          = span_portal b_coord b_type (PortalAt ai (num_portals (chunks p ai) + j)) (spans ! j)"
      using new [OF j] by blast
    show "portals (chunks p' ai) (num_portals (chunks p ai) + j)
          = span_portal a_coord (opposite b_type) (PortalAt bi (num_portals (chunks p bi) + j)) (spans ! j)"
      unfolding opp using new [OF j] by blast
    show "num_portals (chunks p ai) + j < num_portals (chunks p' ai)"
      using j by (simp add: cnt)
    show "fst (spans ! j) \<le> snd (spans ! j)" "snd (spans ! j) < 64"
      using new [OF j] by blast+
    show "b_coord = \<lparr>r = int (bi div width p'), c = int (bi mod width p')\<rparr>"
      unfolding dims by (rule coords)
  next
    fix i assume "fst (spans ! j) \<le> i \<and> i \<le> snd (spans ! j)"
    with new [OF j] have "crossable (chunks p ai) a_type (chunks p bi) b_type i" by blast
    then show "cost_base (chunks p' bi) (edge_start b_type + i * link_stride b_type) \<noteq> COST_IMPASSABLE \<and>
       cost_base (chunks p' ai) (edge_start (opposite b_type) + i * link_stride (opposite b_type)) \<noteq> COST_IMPASSABLE"
      unfolding cost opp by (simp add: crossable_def can_cross_at_def)
  qed
  show ?thesis
    unfolding discovered_def dims
  proof (intro allI impI conjI)
    fix k assume k: "k < width p * height p"
    from inv k have "num_portals (chunks p k) \<le> MAX_PORTALS_PER_CHUNK"
      by (simp add: discovered_def)
    with cap [of k] cnt [of k] show "num_portals (chunks p' k) \<le> MAX_PORTALS_PER_CHUNK"
      by (cases "k = ai \<or> k = bi") auto
  next
    fix k m assume k: "k < width p * height p" and m: "m < num_portals (chunks p' k)"
    show "\<exists>t. portal_ok p' k m t"
    proof (cases "m < num_portals (chunks p k)")
      case True
      with inv k obtain t where "portal_ok p k m t"
        unfolding discovered_def by blast
      from portal_ok_mono [OF this True dims cost grow old] show ?thesis by blast
    next
      case False
      with m cnt [of k] have kk: "k = ai \<or> k = bi" and
        j: "m - num_portals (chunks p k) < length spans"
        and mm: "m = num_portals (chunks p k) + (m - num_portals (chunks p k))"
        by (auto split: if_splits)
      from kk show ?thesis
      proof
        assume "k = ai"
        with fresh_a [OF j [unfolded \<open>k = ai\<close>]] mm show ?thesis by auto
      next
        assume "k = bi"
        with fresh_b [OF j [unfolded \<open>k = bi\<close>]] mm show ?thesis by auto
      qed
    qed
  qed
qed

lemma chunk_idx_arith:
  fixes i j w h :: nat
  assumes j: "j < w" and i: "i < h"
  shows "(i * w + j) div w = i" "(i * w + j) mod w = j" "i * w + j < w * h"
    "i + 1 < h \<Longrightarrow> (i * w + j + w) div w = i + 1 \<and> (i * w + j + w) mod w = j \<and> i * w + j + w < w * h"
    "j + 1 < w \<Longrightarrow> (i * w + j + 1) div w = i \<and> (i * w + j + 1) mod w = j + 1 \<and> i * w + j + 1 < w * h"
proof -
  have dm: "(a * w + b) div w = a \<and> (a * w + b) mod w = b" if "b < w" for a b
    using that by simp
  show "(i * w + j) div w = i" "(i * w + j) mod w = j" using j by simp_all
  have "i * w + j < i * w + w" using j by simp
  also have "\<dots> = Suc i * w" by simp
  also have "\<dots> \<le> h * w" using i by (intro mult_le_mono1) simp
  finally show lt: "i * w + j < w * h" by (simp add: mult.commute)
  {
    assume i1: "i + 1 < h"
    have e: "i * w + j + w = Suc i * w + j" by simp
    have "Suc i * w + j < Suc i * w + w" using j by simp
    also have "\<dots> = Suc (Suc i) * w" by simp
    also have "\<dots> \<le> h * w" using i1 by (intro mult_le_mono1) simp
    finally have "Suc i * w + j < w * h" by (simp add: mult.commute)
    moreover have "(Suc i * w + j) div w = Suc i" "(Suc i * w + j) mod w = j"
      using dm [OF j, of "Suc i"] by blast+
    ultimately show "(i * w + j + w) div w = i + 1 \<and> (i * w + j + w) mod w = j \<and> i * w + j + w < w * h"
      unfolding e by simp
  }
  {
    assume j1: "j + 1 < w"
    have e: "i * w + j + 1 = i * w + Suc j" by simp
    have "i * w + Suc j < i * w + w" using j1 by simp
    also have "\<dots> = Suc i * w" by simp
    also have "\<dots> \<le> h * w" using i by (intro mult_le_mono1) simp
    finally have "i * w + Suc j < w * h" by (simp add: mult.commute)
    moreover have "(i * w + Suc j) div w = i" "(i * w + Suc j) mod w = Suc j"
      using dm [of "Suc j" i] j1 by simp_all
    ultimately show "(i * w + j + 1) div w = i \<and> (i * w + j + 1) mod w = j + 1 \<and> i * w + j + 1 < w * h"
      unfolding e by simp
  }
qed

text \<open>One pass of the body of \<^verbatim>\<open>n_create_portals\<close> keeps what discovery maintains.\<close>

lemma discovered_body:
  fixes p :: "('w::zero) nav_private"
  assumes run: "n_create_portals_body i j (p, n, calls) = Inr (p', n', calls')"
    and j: "j < width p" and i: "i < height p" and inv: "discovered p"
  shows "discovered p' \<and> width p' = width p \<and> height p' = height p"
proof -
  define w h k where "w = width p" and "h = height p" and "k = i * w + j"
  note ar = chunk_idx_arith [OF j [folded w_def] i [folded h_def], folded k_def]
  from n_create_portals_body_Inr [OF run j] obtain p1 where
    bot: "if i + 1 < h
          then link_chunks_at p k EDGE_BOT \<lparr>r = int i, c = int j\<rparr> (k + w) EDGE_TOP \<lparr>r = int i + 1, c = int j\<rparr> = Inr p1
          else p1 = p"
    and right: "if j + 1 < w
          then link_chunks_at p1 k EDGE_RIGHT \<lparr>r = int i, c = int j\<rparr> (k + 1) EDGE_LEFT \<lparr>r = int i, c = int j + 1\<rparr> = Inr p'
          else p' = p1"
    and d1: "width p1 = w" "height p1 = h"
    unfolding w_def h_def k_def by blast
  have inv1: "discovered p1"
  proof (cases "i + 1 < h")
    case True
    with bot have run1: "link_chunks_at p k EDGE_BOT \<lparr>r = int i, c = int j\<rparr> (k + w) EDGE_TOP \<lparr>r = int i + 1, c = int j\<rparr> = Inr p1"
      by simp
    from j have wpos: "0 < w" by (simp add: w_def)
    from ar(4) [OF True] have f: "(k + w) div w = i + 1" "(k + w) mod w = j" "k + w < w * h" by simp_all
    show ?thesis
    proof (rule discovered_link [OF inv run1])
      show "k < k + w" using wpos by simp
      show "k + w < width p * height p" using f(3) by (simp add: w_def h_def)
      show "facing EDGE_BOT EDGE_TOP" by (simp add: facing_def)
      show "neighbour_across (width p) (height p) k EDGE_BOT = Some (k + w)"
        using True ar(1) by (simp add: neighbour_across_def w_def [symmetric] h_def [symmetric])
      show "neighbour_across (width p) (height p) (k + w) EDGE_TOP = Some k"
        using f(1) by (simp add: neighbour_across_def w_def [symmetric] h_def [symmetric])
      show "\<lparr>r = int i, c = int j\<rparr> = \<lparr>r = int (k div width p), c = int (k mod width p)\<rparr>"
        using ar(1,2) by (simp add: w_def [symmetric])
      show "\<lparr>r = int i + 1, c = int j\<rparr> = \<lparr>r = int ((k + w) div width p), c = int ((k + w) mod width p)\<rparr>"
        using f(1,2) by (simp add: w_def [symmetric])
    qed
  next
    case False
    with bot inv show ?thesis by simp
  qed
  show ?thesis
  proof (cases "j + 1 < w")
    case True
    with right have run2: "link_chunks_at p1 k EDGE_RIGHT \<lparr>r = int i, c = int j\<rparr> (k + 1) EDGE_LEFT \<lparr>r = int i, c = int j + 1\<rparr> = Inr p'"
      by simp
    from ar(5) [OF True] have f: "(k + 1) div w = i" "(k + 1) mod w = j + 1" "k + 1 < w * h" by simp_all
    have "discovered p'"
    proof (rule discovered_link [OF inv1 run2])
      show "k < k + 1" by simp
      show "k + 1 < width p1 * height p1" using f(3) by (simp add: d1)
      show "facing EDGE_RIGHT EDGE_LEFT" by (simp add: facing_def)
      show "neighbour_across (width p1) (height p1) k EDGE_RIGHT = Some (k + 1)"
        using True ar(2) by (simp add: neighbour_across_def d1)
      show "neighbour_across (width p1) (height p1) (k + 1) EDGE_LEFT = Some k"
        using f(2) by (simp add: neighbour_across_def d1)
      show "\<lparr>r = int i, c = int j\<rparr> = \<lparr>r = int (k div width p1), c = int (k mod width p1)\<rparr>"
        using ar(1,2) by (simp add: d1)
      show "\<lparr>r = int i, c = int j + 1\<rparr> = \<lparr>r = int ((k + 1) div width p1), c = int ((k + 1) mod width p1)\<rparr>"
        using f(1,2) by (simp add: d1)
    qed
    moreover from link_chunks_at_dims [OF run2] have "width p' = width p" "height p' = height p"
      by (simp_all add: d1 w_def h_def)
    ultimately show ?thesis by simp
  next
    case False
    with right inv1 d1 show ?thesis by (simp add: w_def h_def)
  qed
qed

text \<open>Portal discovery, started on chunks that hold no portals, ends with what it maintains.\<close>

lemma n_create_portals_loops_discovered:
  fixes priv0 :: "('w::zero) nav_private"
  assumes run: "n_create_portals_loops priv0 = Inr (priv, n_links, calls)"
    and fresh: "\<And>k. k < width priv0 * height priv0 \<Longrightarrow> num_portals (chunks priv0 k) = 0"
  shows "discovered priv \<and> width priv = width priv0 \<and> height priv = height priv0"
proof -
  define I where "I = (\<lambda>(i::nat) (j::nat) (s :: 'w nav_private \<times> nat \<times> link_call list).
      case s of (p, n, cs) \<Rightarrow> discovered p \<and> width p = width priv0 \<and> height p = height priv0)"
  have "I (height priv0) 0 (priv, n_links, calls)"
  proof (rule for_upto_nested_partial [OF run [unfolded n_create_portals_loops_def], where I = I])
    show "I 0 0 (priv0, 0, [])"
      using fresh by (simp add: I_def discovered_def)
  next
    fix i t assume "I i (width priv0) t"
    then show "I (Suc i) 0 t" by (simp add: I_def)
  next
    fix i j t t'
    assume i: "i < height priv0" and j: "j < width priv0" and t: "I i j t"
      and body: "n_create_portals_body i j t = Inr t'"
    obtain p n cs where t_eq: "t = (p, n, cs)" by (cases t)
    obtain p' n' cs' where t'_eq: "t' = (p', n', cs')" by (cases t')
    from t have inv: "discovered p" and d: "width p = width priv0" "height p = height priv0"
      by (simp_all add: I_def t_eq)
    from discovered_body [OF body [unfolded t_eq t'_eq] j [folded d(1)] i [folded d(2)] inv] d
    show "I i (Suc j) t'"
      by (simp add: I_def t'_eq)
  qed
  then show ?thesis by (simp add: I_def)
qed

lemma scan_open_prefix:
  assumes "\<And>i. i < 64 \<Longrightarrow> f i"
  shows "0 < n \<Longrightarrow> n \<le> 63 \<Longrightarrow> scan f 64 n = ([], Some 0)"
proof (induction n)
  case 0
  then show ?case by simp
next
  case (Suc n)
  show ?case
  proof (cases "n = 0")
    case True
    with assms [of 0] show ?thesis by (simp add: scan_step_def)
  next
    case False
    with Suc have "scan f 64 n = ([], Some 0)" by simp
    with Suc.prems assms [of n] show ?thesis by (simp add: scan_step_def)
  qed
qed

lemma scan_open:
  assumes "\<And>i. i < 64 \<Longrightarrow> f i"
  shows "scan f 64 64 = ([(0, 63)], None)"
proof -
  have "scan f 64 (Suc 63) = scan_step f 64 63 (scan f 64 63)" by (rule scan.simps)
  also have "scan f 64 63 = ([], Some 0)" by (rule scan_open_prefix [OF assms]) simp_all
  also have "scan_step f 64 63 ([], Some 0) = ([(0, 63)], None)"
    using assms [of 63] by (simp add: scan_step_def)
  finally show ?thesis by simp
qed

text \<open>An edge between two chunks whose boundary cells are all passable is one span.\<close>

lemma link_spans_open:
  assumes "\<And>k. k < 4096 \<Longrightarrow> cost_base a k \<noteq> COST_IMPASSABLE"
    and "\<And>k. k < 4096 \<Longrightarrow> cost_base b k \<noteq> COST_IMPASSABLE"
    and "facing a_type b_type"
  shows "link_spans a a_type b b_type = ([(0, 63)], None)"
  unfolding link_spans_def
proof (rule scan_open)
  fix i :: nat assume i: "i < 64"
  from assms(3) consider "a_type = EDGE_BOT" "b_type = EDGE_TOP" | "a_type = EDGE_RIGHT" "b_type = EDGE_LEFT"
    by (auto simp: facing_def)
  then show "crossable a a_type b b_type i"
  proof cases
    case 1
    with i assms(1) [of "4032 + i"] assms(2) [of i] show ?thesis
      by (simp add: crossable_def can_cross_at_def edge_start_def link_stride_def cell_def)
  next
    case 2
    with i assms(1) [of "63 + i * 64"] assms(2) [of "i * 64"] show ?thesis
      by (simp add: crossable_def can_cross_at_def edge_start_def link_stride_def cell_def)
  qed
qed

lemma linked_chunk_first:
  "portals (linked_chunk a t cc p np (sp # spans, cur)) (num_portals a) = span_portal cc t (PortalAt p np) sp"
  using linked_chunk_new [of 0 "(sp # spans, cur)" a t cc p np] by simp

text \<open>
  Claim C4. When portal discovery, started on chunks that hold no portals, runs to its end,
  every portal it has recorded lies on an edge of its chunk that has a chunk across it:
  both endpoints are on that edge, in row 0 or 63 for the top or bottom edge and in column 0
  or 63 for the left or right edge, the varying coordinate of the second endpoint is not
  less than that of the first, and at every position from the first to the second the cell
  of the chunk and the facing cell of the chunk across are passable.
\<close>

theorem n_create_portals_loops_spans:
  fixes priv0 :: "('w::zero) nav_private"
  assumes "n_create_portals_loops priv0 = Inr (priv, n_links, calls)"
    and "\<forall>k < width priv0 * height priv0. num_portals (chunks priv0 k) = 0"
  shows "\<forall>k < width priv * height priv. \<forall>m < num_portals (chunks priv k).
           \<exists>t \<in> set all_edges. portal_span priv k m t"
proof (intro allI impI)
  fix k m assume k: "k < width priv * height priv" and m: "m < num_portals (chunks priv k)"
  from n_create_portals_loops_discovered [OF assms(1)] assms(2)
  have "discovered priv" by blast
  with k m obtain t where "portal_ok priv k m t"
    unfolding discovered_def by blast
  moreover have "t \<in> set all_edges"
    by (cases t) (simp_all add: all_edges_def)
  ultimately show "\<exists>t \<in> set all_edges. portal_span priv k m t"
    unfolding portal_ok_def by blast
qed

theorem n_create_portals_loops_spans_witness:
  "\<exists>priv n_links calls.
     n_create_portals_loops map_2x1 = Inr (priv, n_links, calls) \<and>
     num_portals (chunks priv 0) = 1 \<and>
     endpoints (portals (chunks priv 0) 0) = (\<lparr>r = 0, c = 63\<rparr>, \<lparr>r = 63, c = 63\<rparr>) \<and>
     (\<exists>t \<in> set all_edges. portal_span priv 0 0 t)"
proof -
  have dims: "width map_2x1 = 2" "height map_2x1 = 1"
    and np: "num_portals (chunks map_2x1 0) \<le> 32" "num_portals (chunks map_2x1 1) \<le> 32"
    and fresh: "\<forall>k < width map_2x1 * height map_2x1. num_portals (chunks map_2x1 k) = 0"
    by (simp_all add: map_2x1_def open_chunk_def)
  from n_create_portals_loops_2x1 [OF dims np] obtain priv where
    run: "n_create_portals_loops map_2x1 = Inr (priv, 1, [(0, EDGE_RIGHT, 1, EDGE_LEFT)])"
    and d: "width priv = 2" "height priv = 1"
    and link: "link_chunks_at map_2x1 0 EDGE_RIGHT \<lparr>r = 0, c = 0\<rparr> 1 EDGE_LEFT \<lparr>r = 0, c = 1\<rparr> = Inr priv"
    by blast
  have sp: "link_spans (chunks map_2x1 0) EDGE_RIGHT (chunks map_2x1 1) EDGE_LEFT = ([(0, 63)], None)"
    by (rule link_spans_open) (simp_all add: map_2x1_def open_chunk_def facing_def)
  have lt: "(0::nat) < 1" and fc: "facing EDGE_RIGHT EDGE_LEFT"
    and np64: "num_portals (chunks map_2x1 0) \<le> MAX_PORTALS_PER_CHUNK"
      "num_portals (chunks map_2x1 1) \<le> MAX_PORTALS_PER_CHUNK"
    by (simp_all add: facing_def map_2x1_def open_chunk_def)
  from link have priv: "priv = map_2x1\<lparr>chunks := (chunks map_2x1)
             (0 := linked_chunk (chunks map_2x1 0) EDGE_RIGHT \<lparr>r = 0, c = 0\<rparr> 1 (num_portals (chunks map_2x1 1)) ([(0, 63)], None),
              1 := linked_chunk (chunks map_2x1 1) EDGE_LEFT \<lparr>r = 0, c = 1\<rparr> 0 (num_portals (chunks map_2x1 0)) ([(0, 63)], None))\<rparr>"
    unfolding link_chunks_at_cases [OF lt fc np64] sp by (simp split: if_splits)
  have cnt: "num_portals (chunks priv 0) = 1"
    by (simp add: priv map_2x1_def open_chunk_def)
  have "num_portals (chunks map_2x1 0) = 0" "num_portals (chunks map_2x1 1) = 0"
    by (simp_all add: map_2x1_def open_chunk_def)
  with linked_chunk_first [of "chunks map_2x1 0" EDGE_RIGHT "\<lparr>r = 0, c = 0\<rparr>" 1 0 "(0, 63)" "[]" None]
  have "portals (chunks priv 0) 0 = span_portal \<lparr>r = 0, c = 0\<rparr> EDGE_RIGHT (PortalAt 1 0) (0, 63)"
    unfolding priv by simp
  then have ends: "endpoints (portals (chunks priv 0) 0) = (\<lparr>r = 0, c = 63\<rparr>, \<lparr>r = 63, c = 63\<rparr>)"
    by (simp add: edge_pt_def)
  from n_create_portals_loops_spans [OF run fresh, rule_format, of 0 0]
  have "\<exists>t \<in> set all_edges. portal_span priv 0 0 t"
    by (simp add: d cnt)
  with run cnt ends show ?thesis by blast
qed

section \<open>Navigation store: the loops in closed form and the pairing of portals\<close>

lemma div_eq_iff_block:
  fixes x f a :: nat
  assumes "0 < f"
  shows "x div f = a \<longleftrightarrow> a * f \<le> x \<and> x < a * f + f"
proof
  assume "x div f = a"
  then have a: "a = x div f" by simp
  have "x div f * f \<le> x" by simp
  moreover have "x < f + x div f * f" using assms by (rule dividend_less_div_times)
  ultimately show "a * f \<le> x \<and> x < a * f + f" unfolding a by simp
next
  assume "a * f \<le> x \<and> x < a * f + f"
  then show "x div f = a"
    by (intro div_nat_eqI) (simp_all add: mult.commute)
qed

lemma in_block_tile:
  assumes "0 < chunk_w" "chunk_w \<le> 64" "0 < chunk_h" "chunk_h \<le> 64"
  shows "in_block (tile_r * (FIELD_RES_R div chunk_h)) (tile_c * (FIELD_RES_C div chunk_w))
           (FIELD_RES_R div chunk_h) 0 (FIELD_RES_C div chunk_w) k
         \<longleftrightarrow> tile_row chunk_h k = tile_r \<and> tile_col chunk_w k = tile_c"
proof -
  have fr: "0 < 64 div chunk_h" and fc: "0 < 64 div chunk_w"
    using assms by (simp_all add: div_greater_zero_iff)
  show ?thesis
    unfolding in_block_def tile_row_def tile_col_def div_eq_iff_block [OF fr] div_eq_iff_block [OF fc]
    by auto
qed

lemma tiles_done_start: "tiles_done F chunk_w chunk_h ts 0 0 ch = ch"
  by (simp add: tiles_done_def)

lemma tiles_done_row:
  "tiles_done F chunk_w chunk_h ts tile_r chunk_w ch = tiles_done F chunk_w chunk_h ts (Suc tile_r) 0 ch"
proof -
  have "(\<lambda>k. if tile_col chunk_w k < chunk_w \<and>
           (tile_row chunk_h k < tile_r \<or> (tile_row chunk_h k = tile_r \<and> tile_col chunk_w k < chunk_w))
        then tile_cost F (ts (tile_row chunk_h k * chunk_w + tile_col chunk_w k))
        else cost_base ch k)
      = (\<lambda>k. if tile_col chunk_w k < chunk_w \<and>
           (tile_row chunk_h k < Suc tile_r \<or> (tile_row chunk_h k = Suc tile_r \<and> tile_col chunk_w k < 0))
        then tile_cost F (ts (tile_row chunk_h k * chunk_w + tile_col chunk_w k))
        else cost_base ch k)"
    by (rule ext) (auto simp: less_Suc_eq)
  then show ?thesis by (simp add: tiles_done_def)
qed

lemma tiles_done_step:
  assumes dims: "0 < chunk_w" "chunk_w \<le> 64" "0 < chunk_h" "chunk_h \<le> 64"
    and t: "tile_r < chunk_h" "tile_c < chunk_w"
  shows "n_set_cost_for_tile F (tiles_done F chunk_w chunk_h ts tile_r tile_c ch) chunk_w chunk_h tile_r tile_c
           (ts (tile_r * chunk_w + tile_c))
         = Inr (tiles_done F chunk_w chunk_h ts tile_r (Suc tile_c) ch)"
proof -
  have "(\<lambda>k. if in_block (tile_r * (FIELD_RES_R div chunk_h)) (tile_c * (FIELD_RES_C div chunk_w))
                   (FIELD_RES_R div chunk_h) 0 (FIELD_RES_C div chunk_w) k
             then tile_cost F (ts (tile_r * chunk_w + tile_c))
             else cost_base (tiles_done F chunk_w chunk_h ts tile_r tile_c ch) k)
        = cost_base (tiles_done F chunk_w chunk_h ts tile_r (Suc tile_c) ch)"
    unfolding in_block_tile [OF dims]
    using t(2) by (intro ext) (auto simp: tiles_done_def less_Suc_eq)
  then show ?thesis
    unfolding n_set_cost_for_tile_closed [OF t] fill_block_def tile_cost_def [symmetric]
    by (simp add: tiles_done_def)
qed

text \<open>The tile loops of \<^verbatim>\<open>N_BuildForMapData\<close> on one chunk.\<close>

lemma tile_loops_closed:
  assumes dims: "0 < chunk_w" "chunk_w \<le> 64" "0 < chunk_h" "chunk_h \<le> 64"
  shows "for_upto chunk_h (\<lambda>tile_r. for_upto chunk_w (\<lambda>tile_c curr_chunk.
            n_set_cost_for_tile F curr_chunk chunk_w chunk_h tile_r tile_c (ts (tile_r * chunk_w + tile_c)))) ch
         = Inr (tiles_done F chunk_w chunk_h ts chunk_h 0 ch)"
proof -
  have "for_upto chunk_h (\<lambda>tile_r. for_upto chunk_w (\<lambda>tile_c curr_chunk.
            n_set_cost_for_tile F curr_chunk chunk_w chunk_h tile_r tile_c (ts (tile_r * chunk_w + tile_c))))
          (tiles_done F chunk_w chunk_h ts 0 0 ch)
        = Inr (tiles_done F chunk_w chunk_h ts chunk_h 0 ch)"
  proof (rule for_upto_closed [where F = "\<lambda>tile_r. tiles_done F chunk_w chunk_h ts tile_r 0 ch"])
    fix tile_r assume r: "tile_r < chunk_h"
    have "for_upto chunk_w (\<lambda>tile_c curr_chunk.
            n_set_cost_for_tile F curr_chunk chunk_w chunk_h tile_r tile_c (ts (tile_r * chunk_w + tile_c)))
            (tiles_done F chunk_w chunk_h ts tile_r 0 ch)
          = Inr (tiles_done F chunk_w chunk_h ts tile_r chunk_w ch)"
      by (rule for_upto_closed [where F = "\<lambda>tile_c. tiles_done F chunk_w chunk_h ts tile_r tile_c ch"])
        (rule tiles_done_step [OF dims r])
    then show "for_upto chunk_w (\<lambda>tile_c curr_chunk.
            n_set_cost_for_tile F curr_chunk chunk_w chunk_h tile_r tile_c (ts (tile_r * chunk_w + tile_c)))
            (tiles_done F chunk_w chunk_h ts tile_r 0 ch)
          = Inr (tiles_done F chunk_w chunk_h ts (Suc tile_r) 0 ch)"
      by (simp add: tiles_done_row)
  qed
  then show ?thesis by (simp add: tiles_done_start)
qed

lemma tiles_done_sel [simp]:
  "num_portals (tiles_done F chunk_w chunk_h ts tile_r tile_c ch) = num_portals ch"
  "portals (tiles_done F chunk_w chunk_h ts tile_r tile_c ch) = portals ch"
  by (simp_all add: tiles_done_def)

text \<open>When the tile counts divide the resolution, the blocks cover the grid.\<close>

lemma tiles_cover:
  assumes "0 < chunk_w" "64 mod chunk_w = 0" "0 < chunk_h" "64 mod chunk_h = 0" "k < 4096"
  shows "tile_row chunk_h k < chunk_h \<and> tile_col chunk_w k < chunk_w"
proof -
  have r: "chunk_h * (64 div chunk_h) = 64" and c: "chunk_w * (64 div chunk_w) = 64"
    using assms(2,4) by (simp_all add: mod_0_imp_dvd)
  have "k div 64 < chunk_h * (64 div chunk_h)" using assms(5) unfolding r by simp
  then have "(k div 64) div (64 div chunk_h) < chunk_h"
    by (simp add: less_mult_imp_div_less mult.commute)
  moreover have "k mod 64 < chunk_w * (64 div chunk_w)" unfolding c by simp
  then have "(k mod 64) div (64 div chunk_w) < chunk_w"
    by (simp add: less_mult_imp_div_less mult.commute)
  ultimately show ?thesis by (simp add: tile_row_def tile_col_def)
qed

lemma tiles_done_cost:
  assumes "0 < chunk_w" "64 mod chunk_w = 0" "0 < chunk_h" "64 mod chunk_h = 0" "k < 4096"
  shows "cost_base (tiles_done F chunk_w chunk_h ts chunk_h 0 ch) k
         = tile_cost F (ts (tile_row chunk_h k * chunk_w + tile_col chunk_w k))"
  using tiles_cover [OF assms] by (simp add: tiles_done_def)

lemma cost_fields_done_sel [simp]:
  "width (cost_fields_done F chunk_w chunk_h chunk_tiles ret n) = width ret"
  "height (cost_fields_done F chunk_w chunk_h chunk_tiles ret n) = height ret"
  by (simp_all add: cost_fields_done_def)

lemma cost_fields_done_start: "cost_fields_done F chunk_w chunk_h chunk_tiles ret 0 = ret"
  by (simp add: cost_fields_done_def)

lemma cost_fields_done_step:
  "(cost_fields_done F chunk_w chunk_h chunk_tiles ret n)
     \<lparr>chunks := (chunks (cost_fields_done F chunk_w chunk_h chunk_tiles ret n))
        (n := tiles_done F chunk_w chunk_h (chunk_tiles n) chunk_h 0 ((chunks ret n)\<lparr>num_portals := 0\<rparr>))\<rparr>
   = cost_fields_done F chunk_w chunk_h chunk_tiles ret (Suc n)"
proof -
  have "(\<lambda>k. if k < n
              then tiles_done F chunk_w chunk_h (chunk_tiles k) chunk_h 0 ((chunks ret k)\<lparr>num_portals := 0\<rparr>)
              else chunks ret k)
          (n := tiles_done F chunk_w chunk_h (chunk_tiles n) chunk_h 0 ((chunks ret n)\<lparr>num_portals := 0\<rparr>))
        = (\<lambda>k. if k < Suc n
              then tiles_done F chunk_w chunk_h (chunk_tiles k) chunk_h 0 ((chunks ret k)\<lparr>num_portals := 0\<rparr>)
              else chunks ret k)"
    by (rule ext) (auto simp: less_Suc_eq)
  then show ?thesis by (simp add: cost_fields_done_def)
qed

text \<open>The first loops of \<^verbatim>\<open>N_BuildForMapData\<close>: they return, with every chunk's cost grid filled from its tiles.\<close>

lemma build_cost_fields_closed:
  assumes dims: "0 < chunk_w" "chunk_w \<le> 64" "0 < chunk_h" "chunk_h \<le> 64"
  shows "build_cost_fields F chunk_w chunk_h chunk_tiles ret
         = Inr (cost_fields_done F chunk_w chunk_h chunk_tiles ret (height ret * width ret))"
proof -
  let ?G = "cost_fields_done F chunk_w chunk_h chunk_tiles ret"
  let ?body = "\<lambda>chunk_r chunk_c ret.
         let curr_chunk = chunks ret (CHUNK_IDX chunk_r (width ret) chunk_c);
             curr_tiles = chunk_tiles (CHUNK_IDX chunk_r (width ret) chunk_c);
             curr_chunk = curr_chunk\<lparr>num_portals := 0\<rparr>
         in seq (for_upto chunk_h (\<lambda>tile_r.
                   for_upto chunk_w (\<lambda>tile_c curr_chunk.
                     n_set_cost_for_tile F curr_chunk chunk_w chunk_h tile_r tile_c
                       (curr_tiles (tile_r * chunk_w + tile_c)))) curr_chunk)
              (\<lambda>curr_chunk.
                 Inr (ret\<lparr>chunks := (chunks ret)(CHUNK_IDX chunk_r (width ret) chunk_c := curr_chunk)\<rparr>))"
  have step: "?body i j (?G (i * width ret + j)) = Inr (?G (i * width ret + Suc j))" for i j
  proof -
    have cur: "chunks (?G (i * width ret + j)) (i * width ret + j) = chunks ret (i * width ret + j)"
      by (simp add: cost_fields_done_def)
    show ?thesis
      unfolding Let_def cost_fields_done_sel cur tile_loops_closed [OF dims]
      by (simp add: seq_def cost_fields_done_step)
  qed
  have "for_upto (height ret) (\<lambda>chunk_r. for_upto (width ret) (?body chunk_r)) (?G (0 * width ret))
        = Inr (?G (height ret * width ret))"
  proof (rule for_upto_closed [where F = "\<lambda>i. ?G (i * width ret)"])
    fix i assume "i < height ret"
    have "for_upto (width ret) (?body i) (?G (i * width ret + 0)) = Inr (?G (i * width ret + width ret))"
      by (rule for_upto_closed [where F = "\<lambda>j. ?G (i * width ret + j)"]) (rule step)
    then show "for_upto (width ret) (?body i) (?G (i * width ret)) = Inr (?G (Suc i * width ret))"
      by (simp add: add.commute)
  qed
  then show ?thesis
    by (simp add: build_cost_fields_def cost_fields_done_start)
qed

lemma linked_all_sel [simp]:
  "width (linked_all A p n) = width p"
  "height (linked_all A p n) = height p"
  by (simp_all add: linked_all_def)

lemma linked_all_start: "linked_all A p 0 = p"
  by (simp add: linked_all_def)

lemma linked_all_step:
  "(linked_all A p n)\<lparr>chunks := (chunks (linked_all A p n))
      (n := linker_state A n (chunks p n) (num_portals (chunks p n)) 0)\<rparr>
   = linked_all A p (Suc n)"
proof -
  have "(\<lambda>k. if k < n then linker_state A k (chunks p k) (num_portals (chunks p k)) 0 else chunks p k)
          (n := linker_state A n (chunks p n) (num_portals (chunks p n)) 0)
        = (\<lambda>k. if k < Suc n then linker_state A k (chunks p k) (num_portals (chunks p k)) 0 else chunks p k)"
    by (rule ext) (auto simp: less_Suc_eq)
  then show ?thesis by (simp add: linked_all_def)
qed

text \<open>
  The last loops of \<^verbatim>\<open>N_BuildForMapData\<close> return when every chunk holds at most
  \<^verbatim>\<open>MAX_PORTALS_PER_CHUNK\<close> portals whose edge arrays have room and whose sums of endpoint
  coordinates are \<^verbatim>\<open>int\<close>s.
\<close>

lemma link_all_chunk_portals_closed:
  assumes room: "\<And>k. k < width p * height p \<Longrightarrow>
      num_portals (chunks p k) \<le> MAX_PORTALS_PER_CHUNK \<and>
      (\<forall>i < num_portals (chunks p k).
         num_neighbours (portals (chunks p k) i) + (num_portals (chunks p k) - 1) \<le> MAX_PORTALS_PER_CHUNK - 1 \<and>
         midpoint_fits (portals (chunks p k) i))"
  shows "link_all_chunk_portals A p = Inr (linked_all A p (height p * width p))"
proof -
  let ?G = "linked_all A p"
  let ?body = "\<lambda>chunk_r chunk_c ret.
         seq (n_link_chunk_portals A (CHUNK_IDX chunk_r (width ret) chunk_c)
                (chunks ret (CHUNK_IDX chunk_r (width ret) chunk_c)))
           (\<lambda>curr_chunk.
              Inr (ret\<lparr>chunks := (chunks ret)(CHUNK_IDX chunk_r (width ret) chunk_c := curr_chunk)\<rparr>))"
  have step: "?body i j (?G (i * width p + j)) = Inr (?G (i * width p + Suc j))"
    if i: "i < height p" and j: "j < width p" for i j
  proof -
    have lt: "i * width p + j < width p * height p"
      by (rule chunk_idx_arith(3) [OF j i])
    have cur: "chunks (?G (i * width p + j)) (i * width p + j) = chunks p (i * width p + j)"
      by (simp add: linked_all_def)
    have run: "n_link_chunk_portals A (i * width p + j) (chunks p (i * width p + j))
               = Inr (linker_state A (i * width p + j) (chunks p (i * width p + j))
                        (num_portals (chunks p (i * width p + j))) 0)"
      using room [OF lt] by (intro n_link_chunk_portals_closed) simp_all
    show ?thesis
      unfolding linked_all_sel cur run
      by (simp add: seq_def linked_all_step)
  qed
  have "for_upto (height p) (\<lambda>chunk_r. for_upto (width p) (?body chunk_r)) (?G (0 * width p))
        = Inr (?G (height p * width p))"
  proof (rule for_upto_closed [where F = "\<lambda>i. ?G (i * width p)"])
    fix i assume i: "i < height p"
    have "for_upto (width p) (?body i) (?G (i * width p + 0)) = Inr (?G (i * width p + width p))"
      by (rule for_upto_closed [where F = "\<lambda>j. ?G (i * width p + j)"]) (rule step [OF i])
    then show "for_upto (width p) (?body i) (?G (i * width p)) = Inr (?G (Suc i * width p))"
      by (simp add: add.commute)
  qed
  then show ?thesis
    by (simp add: link_all_chunk_portals_def linked_all_start)
qed

lemma edges_to_cong:
  assumes "\<And>j. j < n \<Longrightarrow> j \<noteq> i \<Longrightarrow>
     A (midpoint (portals ch i)) (midpoint (portals ch j)) (cost_base ch)
     = A' (midpoint (portals ch' i)) (midpoint (portals ch' j)) (cost_base ch')"
  shows "edges_to A p ch i n = edges_to A' p ch' i n"
  unfolding edges_to_def
  by (rule arg_cong [where f = concat], rule map_cong [OF refl]) (auto simp: edge_to_def assms)

lemma linked_all_fields [simp]:
  "num_portals (chunks (linked_all A p n) k) = num_portals (chunks p k)"
  "cost_base (chunks (linked_all A p n) k) = cost_base (chunks p k)"
  "endpoints (portals (chunks (linked_all A p n) k) m) = endpoints (portals (chunks p k) m)"
  "connected (portals (chunks (linked_all A p n) k) m) = connected (portals (chunks p k) m)"
  "chunk (portals (chunks (linked_all A p n) k) m) = chunk (portals (chunks p k) m)"
  by (simp_all add: linked_all_def)

lemma portal_link_linked_all: "portal_link (linked_all A p n) k m t = portal_link p k m t"
  by (auto simp: portal_link_def span_on_edge_def split: option.splits portal_ptr.splits)

lemma portal_span_linked_all: "portal_span (linked_all A p n) k m t = portal_span p k m t"
  by (auto simp: portal_span_def span_on_edge_def span_crossable_def split: option.splits)

text \<open>What a call of \<^verbatim>\<open>N_BuildForMapData\<close> that returns a store has gone through.\<close>

lemma N_BuildForMapData_Inr:
  fixes alloc :: "('w::zero) nav_private option"
  assumes "N_BuildForMapData F A alloc w h chunk_w chunk_h chunk_tiles = Inr (Some st)"
  shows "\<exists>g p n_links calls.
           alloc = Some g \<and>
           0 < chunk_w \<and> chunk_w \<le> 64 \<and> 64 mod chunk_w = 0 \<and>
           0 < chunk_h \<and> chunk_h \<le> 64 \<and> 64 mod chunk_h = 0 \<and>
           n_create_portals_loops
             (cost_fields_done F chunk_w chunk_h chunk_tiles (g\<lparr>width := w, height := h\<rparr>) (h * w))
             = Inr (p, n_links, calls) \<and>
           link_all_chunk_portals A p = Inr st"
proof -
  from assms obtain g where g: "alloc = Some g"
    by (cases alloc) (simp_all add: N_BuildForMapData_def)
  from assms have dims: "0 < chunk_w" "chunk_w \<le> 64" "64 mod chunk_w = 0"
    "0 < chunk_h" "chunk_h \<le> 64" "64 mod chunk_h = 0"
    unfolding g N_BuildForMapData_def Let_def by (simp_all split: if_splits)
  have fields: "build_cost_fields F chunk_w chunk_h chunk_tiles (g\<lparr>width := w, height := h\<rparr>)
        = Inr (cost_fields_done F chunk_w chunk_h chunk_tiles (g\<lparr>width := w, height := h\<rparr>) (h * w))"
    using build_cost_fields_closed [OF dims(1,2,4,5), of F chunk_tiles "g\<lparr>width := w, height := h\<rparr>"]
    by simp
  from assms obtain p where
    p: "n_create_portals (cost_fields_done F chunk_w chunk_h chunk_tiles (g\<lparr>width := w, height := h\<rparr>) (h * w)) = Inr p"
    and st: "link_all_chunk_portals A p = Inr st"
    unfolding g N_BuildForMapData_def Let_def using dims
    by (auto simp: fields seq_eq_Inr)
  from p obtain n_links calls where
    "n_create_portals_loops (cost_fields_done F chunk_w chunk_h chunk_tiles (g\<lparr>width := w, height := h\<rparr>) (h * w))
       = Inr (p, n_links, calls)"
    unfolding n_create_portals_def by (auto simp: seq_eq_Inr split: if_splits)
  with g dims st show ?thesis by auto
qed

lemma on_edge_bounds:
  assumes "on_edge t p"
  shows "0 \<le> r p \<and> r p \<le> 63 \<and> 0 \<le> c p \<and> c p \<le> 63"
  using assms by (cases t) (simp_all add: on_edge_def along_def across_def fixed_of_def)

lemma span_on_edge_fits: "span_on_edge t port \<Longrightarrow> midpoint_fits port"
  using on_edge_bounds [of t "fst (endpoints port)"] on_edge_bounds [of t "snd (endpoints port)"]
  by (simp add: span_on_edge_def midpoint_fits_def)

lemma discovered_room:
  assumes "discovered p" and "k < width p * height p"
  shows "num_portals (chunks p k) \<le> MAX_PORTALS_PER_CHUNK \<and>
      (\<forall>i < num_portals (chunks p k).
         num_neighbours (portals (chunks p k) i) + (num_portals (chunks p k) - 1) \<le> MAX_PORTALS_PER_CHUNK - 1 \<and>
         midpoint_fits (portals (chunks p k) i))"
proof (intro conjI allI impI)
  from assms show np: "num_portals (chunks p k) \<le> MAX_PORTALS_PER_CHUNK"
    by (simp add: discovered_def)
  fix i assume "i < num_portals (chunks p k)"
  with assms obtain t where ok: "portal_ok p k i t"
    unfolding discovered_def by blast
  then have "num_neighbours (portals (chunks p k) i) = 0"
    by (simp add: portal_ok_def)
  with np show "num_neighbours (portals (chunks p k) i) + (num_portals (chunks p k) - 1) \<le> MAX_PORTALS_PER_CHUNK - 1"
    by simp
  from ok have "span_on_edge t (portals (chunks p k) i)"
    unfolding portal_ok_iff by blast
  then show "midpoint_fits (portals (chunks p k) i)"
    by (rule span_on_edge_fits)
qed

text \<open>
  A store that \<^verbatim>\<open>N_BuildForMapData\<close> returns is what the portal linker makes of a state that
  portal discovery has left.
\<close>

lemma N_BuildForMapData_discovered:
  fixes alloc :: "('w::zero) nav_private option"
  assumes "N_BuildForMapData F A alloc w h chunk_w chunk_h chunk_tiles = Inr (Some st)"
  shows "\<exists>p. discovered p \<and> width p = w \<and> height p = h \<and> st = linked_all A p (h * w)"
proof -
  from N_BuildForMapData_Inr [OF assms] obtain g p n_links calls where
    loops: "n_create_portals_loops
             (cost_fields_done F chunk_w chunk_h chunk_tiles (g\<lparr>width := w, height := h\<rparr>) (h * w))
             = Inr (p, n_links, calls)"
    and st: "link_all_chunk_portals A p = Inr st"
    by blast
  have "discovered p \<and> width p = width (cost_fields_done F chunk_w chunk_h chunk_tiles (g\<lparr>width := w, height := h\<rparr>) (h * w))
        \<and> height p = height (cost_fields_done F chunk_w chunk_h chunk_tiles (g\<lparr>width := w, height := h\<rparr>) (h * w))"
    by (rule n_create_portals_loops_discovered [OF loops]) (simp add: cost_fields_done_def mult.commute)
  then have inv: "discovered p" and d: "width p = w" "height p = h"
    by simp_all
  have "link_all_chunk_portals A p = Inr (linked_all A p (height p * width p))"
    by (rule link_all_chunk_portals_closed) (rule discovered_room [OF inv])
  with st d have "st = linked_all A p (h * w)" by simp
  with inv d show ?thesis by blast
qed

text \<open>
  Claim C7. In a store that \<^verbatim>\<open>N_BuildForMapData\<close> returns, every recorded portal lies on an
  edge of its chunk that has a chunk across it, so on no edge of the world's boundary; its
  \<^verbatim>\<open>connected\<close> points to a recorded portal of the chunk across that edge, which lies on the
  facing edge with the same span and whose \<^verbatim>\<open>connected\<close> points back; and no other recorded
  portal points to it.
\<close>

theorem N_BuildForMapData_portals_paired:
  fixes alloc :: "('w::zero) nav_private option"
  assumes "N_BuildForMapData TILETYPE_FLAT AStar_GridPath alloc w h chunk_w chunk_h chunk_tiles = Inr (Some st)"
  shows "width st = w \<and> height st = h \<and>
         (\<forall>k < w * h. \<forall>m < num_portals (chunks st k).
            (\<exists>t \<in> set all_edges. portal_link st k m t) \<and>
            (\<forall>k' < w * h. \<forall>m' < num_portals (chunks st k').
               connected (portals (chunks st k') m') = PortalAt k m \<longrightarrow>
               connected (portals (chunks st k) m) = PortalAt k' m'))"
proof -
  from N_BuildForMapData_discovered [OF assms] obtain p where
    inv: "discovered p" and d: "width p = w" "height p = h"
    and st: "st = linked_all AStar_GridPath p (h * w)"
    by blast
  have link: "\<exists>t. portal_link st k m t" if "k < w * h" "m < num_portals (chunks st k)" for k m
  proof -
    from that inv obtain t where "portal_ok p k m t"
      unfolding discovered_def d st by auto
    then show ?thesis
      unfolding st portal_link_linked_all portal_ok_def by blast
  qed
  show ?thesis
  proof (intro conjI allI impI)
    show "width st = w" "height st = h" by (simp_all add: st d)
  next
    fix k m assume "k < w * h" "m < num_portals (chunks st k)"
    from link [OF this] obtain t where "portal_link st k m t" by blast
    moreover have "t \<in> set all_edges" by (cases t) (simp_all add: all_edges_def)
    ultimately show "\<exists>t \<in> set all_edges. portal_link st k m t" by blast
  next
    fix k m k' m'
    assume "k' < w * h" "m' < num_portals (chunks st k')"
      and conn: "connected (portals (chunks st k') m') = PortalAt k m"
    from link [OF this(1,2)] obtain t where "portal_link st k' m' t" by blast
    with conn show "connected (portals (chunks st k) m) = PortalAt k' m'"
      unfolding portal_link_def by (auto split: option.splits portal_ptr.splits)
  qed
qed

text \<open>Linking two facing edges whose cells are all passable: one portal more in each chunk.\<close>

lemma link_open:
  fixes p :: "('w::zero) nav_private"
  assumes free: "\<And>k. k < 4096 \<Longrightarrow> cost_base (chunks p ai) k \<noteq> COST_IMPASSABLE"
      "\<And>k. k < 4096 \<Longrightarrow> cost_base (chunks p bi) k \<noteq> COST_IMPASSABLE"
    and lt: "ai < bi" and fc: "facing a_type b_type"
    and np: "num_portals (chunks p ai) < 64" "num_portals (chunks p bi) < 64"
  shows "\<exists>p'. link_chunks_at p ai a_type a_coord bi b_type b_coord = Inr p' \<and>
           width p' = width p \<and> height p' = height p \<and>
           (\<forall>k. cost_base (chunks p' k) = cost_base (chunks p k)) \<and>
           (\<forall>k. num_portals (chunks p' k) = num_portals (chunks p k) + (if k = ai \<or> k = bi then 1 else 0))"
proof -
  have sp: "link_spans (chunks p ai) a_type (chunks p bi) b_type = ([(0, 63)], None)"
    by (rule link_spans_open [OF free fc])
  have len: "length (fst (link_spans (chunks p ai) a_type (chunks p bi) b_type)) = 1"
    "opened (link_spans (chunks p ai) a_type (chunks p bi) b_type) = 1"
    unfolding sp by (simp_all add: opened_def)
  have "\<exists>p'. link_chunks_at p ai a_type a_coord bi b_type b_coord = Inr p' \<and>
           width p' = width p \<and> height p' = height p \<and>
           (\<forall>k. cost_base (chunks p' k) = cost_base (chunks p k)) \<and>
           (\<forall>k. num_portals (chunks p' k) =
                  num_portals (chunks p k) +
                  (if k = ai \<or> k = bi
                   then length (fst (link_spans (chunks p ai) a_type (chunks p bi) b_type)) else 0))"
    using np by (intro link_chunks_at_counts [OF lt fc _ _ refl]) (simp_all add: len)
  then show ?thesis unfolding len .
qed

text \<open>Portal discovery on a map of two by two chunks whose cells are all passable.\<close>

lemma n_create_portals_2x2_open:
  fixes p :: "('w::zero) nav_private"
  assumes dims: "width p = 2" "height p = 2"
    and fresh: "\<And>k. k < 4 \<Longrightarrow> num_portals (chunks p k) = 0"
    and free: "\<And>k c. k < 4 \<Longrightarrow> c < 4096 \<Longrightarrow> cost_base (chunks p k) c \<noteq> COST_IMPASSABLE"
  shows "\<exists>p' calls. n_create_portals_loops p = Inr (p', 4, calls) \<and> n_create_portals p = Inr p' \<and>
           (\<forall>k < 4. num_portals (chunks p' k) = 2)"
proof -
  have f0: "\<And>k c. k < 4 \<Longrightarrow> c < 4096 \<Longrightarrow> cost_base (chunks p k) c \<noteq> COST_IMPASSABLE"
    by (rule free)
  from link_open [of p 0 2 EDGE_BOT EDGE_TOP "\<lparr>r = 0, c = 0\<rparr>" "\<lparr>r = 0 + 1, c = 0\<rparr>"] f0 fresh dims
  obtain p1 where p1: "link_chunks_at p 0 EDGE_BOT \<lparr>r = 0, c = 0\<rparr> 2 EDGE_TOP \<lparr>r = 0 + 1, c = 0\<rparr> = Inr p1"
    and c1: "width p1 = 2" "height p1 = 2" "\<forall>k. cost_base (chunks p1 k) = cost_base (chunks p k)"
      "\<forall>k. num_portals (chunks p1 k) = num_portals (chunks p k) + (if k = 0 \<or> k = 2 then 1 else 0)"
    by (auto simp: facing_def)
  from link_open [of p1 0 1 EDGE_RIGHT EDGE_LEFT "\<lparr>r = 0, c = 0\<rparr>" "\<lparr>r = 0, c = 0 + 1\<rparr>"] f0 fresh c1
  obtain p2 where p2: "link_chunks_at p1 0 EDGE_RIGHT \<lparr>r = 0, c = 0\<rparr> 1 EDGE_LEFT \<lparr>r = 0, c = 0 + 1\<rparr> = Inr p2"
    and c2: "width p2 = 2" "height p2 = 2" "\<forall>k. cost_base (chunks p2 k) = cost_base (chunks p k)"
      "\<forall>k. num_portals (chunks p2 k) = num_portals (chunks p k) + (if k = 0 \<or> k = 2 then 1 else 0)
          + (if k = 0 \<or> k = 1 then 1 else 0)"
    by (auto simp: facing_def)
  from link_open [of p2 1 3 EDGE_BOT EDGE_TOP "\<lparr>r = 0, c = 1\<rparr>" "\<lparr>r = 0 + 1, c = 1\<rparr>"] f0 fresh c2
  obtain p3 where p3: "link_chunks_at p2 1 EDGE_BOT \<lparr>r = 0, c = 1\<rparr> 3 EDGE_TOP \<lparr>r = 0 + 1, c = 1\<rparr> = Inr p3"
    and c3: "width p3 = 2" "height p3 = 2" "\<forall>k. cost_base (chunks p3 k) = cost_base (chunks p k)"
      "\<forall>k. num_portals (chunks p3 k) = num_portals (chunks p k) + (if k = 0 \<or> k = 2 then 1 else 0)
          + (if k = 0 \<or> k = 1 then 1 else 0) + (if k = 1 \<or> k = 3 then 1 else 0)"
    by (auto simp: facing_def)
  from link_open [of p3 2 3 EDGE_RIGHT EDGE_LEFT "\<lparr>r = 1, c = 0\<rparr>" "\<lparr>r = 1, c = 0 + 1\<rparr>"] f0 fresh c3
  obtain p4 where p4: "link_chunks_at p3 2 EDGE_RIGHT \<lparr>r = 1, c = 0\<rparr> 3 EDGE_LEFT \<lparr>r = 1, c = 0 + 1\<rparr> = Inr p4"
    and c4: "width p4 = 2" "height p4 = 2" "\<forall>k. cost_base (chunks p4 k) = cost_base (chunks p k)"
      "\<forall>k. num_portals (chunks p4 k) = num_portals (chunks p k) + (if k = 0 \<or> k = 2 then 1 else 0)
          + (if k = 0 \<or> k = 1 then 1 else 0) + (if k = 1 \<or> k = 3 then 1 else 0)
          + (if k = 2 \<or> k = 3 then 1 else 0)"
    by (auto simp: facing_def)
  let ?c1 = "[(0, EDGE_BOT, 2, EDGE_TOP), (0, EDGE_RIGHT, Suc 0, EDGE_LEFT)] :: link_call list"
  let ?c2 = "[(0, EDGE_BOT, 2, EDGE_TOP), (0, EDGE_RIGHT, Suc 0, EDGE_LEFT), (Suc 0, EDGE_BOT, 3, EDGE_TOP)] :: link_call list"
  let ?c3 = "[(0, EDGE_BOT, 2, EDGE_TOP), (0, EDGE_RIGHT, Suc 0, EDGE_LEFT), (Suc 0, EDGE_BOT, 3, EDGE_TOP),
              (2, EDGE_RIGHT, 3, EDGE_LEFT)] :: link_call list"
  have b00: "n_create_portals_body 0 0 (p, 0, []) = Inr (p2, 2, ?c1)"
    using p1 p2 by (simp add: n_create_portals_body_def Let_def dims c1)
  have b01: "n_create_portals_body 0 (Suc 0) (p2, 2, ?c1) = Inr (p3, 3, ?c2)"
    using p3 by (simp add: n_create_portals_body_def Let_def c2 c3)
  have b10: "n_create_portals_body (Suc 0) 0 (p3, 3, ?c2) = Inr (p4, 4, ?c3)"
    using p4 by (simp add: n_create_portals_body_def Let_def c3 c4)
  have b11: "n_create_portals_body (Suc 0) (Suc 0) (p4, 4, ?c3) = Inr (p4, 4, ?c3)"
    by (simp add: n_create_portals_body_def Let_def c4)
  have loops: "n_create_portals_loops p = Inr (p4, 4, ?c3)"
    unfolding n_create_portals_loops_def dims for_upto_2 by (simp add: b00 b01 b10 b11)
  have "n_create_portals p = Inr p4"
    by (simp add: n_create_portals_def loops c4)
  moreover have "\<forall>k < 4. num_portals (chunks p4 k) = 2"
  proof (intro allI impI)
    fix k :: nat assume "k < 4"
    then consider "k = 0" | "k = 1" | "k = 2" | "k = 3" by linarith
    then show "num_portals (chunks p4 k) = 2"
      using c4(4) fresh by cases simp_all
  qed
  ultimately show ?thesis using loops by blast
qed

text \<open>\<^verbatim>\<open>N_BuildForMapData\<close> on a map of two by two chunks whose tiles are all pathable.\<close>

lemma N_BuildForMapData_2x2_open:
  fixes g :: "('w::zero) nav_private"
  assumes dims: "0 < chunk_w" "chunk_w \<le> 64" "64 mod chunk_w = 0"
      "0 < chunk_h" "chunk_h \<le> 64" "64 mod chunk_h = 0"
    and tiles: "\<And>k t. n_tile_pathable F (chunk_tiles k t)"
  shows "\<exists>st. N_BuildForMapData F A (Some g) 2 2 chunk_w chunk_h chunk_tiles = Inr (Some st) \<and>
           width st = 2 \<and> height st = 2 \<and> (\<forall>k < 4. num_portals (chunks st k) = 2)"
proof -
  define ret1 where "ret1 = cost_fields_done F chunk_w chunk_h chunk_tiles (g\<lparr>width := 2, height := 2\<rparr>) (2 * 2)"
  have fields: "build_cost_fields F chunk_w chunk_h chunk_tiles (g\<lparr>width := 2, height := 2\<rparr>) = Inr ret1"
    using build_cost_fields_closed [OF dims(1,2,4,5), of F chunk_tiles "g\<lparr>width := 2, height := 2\<rparr>"]
    by (simp add: ret1_def)
  have d1: "width ret1 = 2" "height ret1 = 2"
    by (simp_all add: ret1_def)
  have fresh: "num_portals (chunks ret1 k) = 0" if "k < 4" for k
    using that by (simp add: ret1_def cost_fields_done_def)
  have free: "cost_base (chunks ret1 k) c \<noteq> COST_IMPASSABLE" if "k < 4" "c < 4096" for k c
  proof -
    have "cost_base (chunks ret1 k) c
          = tile_cost F (chunk_tiles k (tile_row chunk_h c * chunk_w + tile_col chunk_w c))"
      using that(1) tiles_done_cost [OF dims(1,3,4,6) that(2)]
      by (simp add: ret1_def cost_fields_done_def)
    then show ?thesis by (simp add: tile_cost_def tiles)
  qed
  from n_create_portals_2x2_open [OF d1 fresh free] obtain p calls where
    loops: "n_create_portals_loops ret1 = Inr (p, 4, calls)"
    and create: "n_create_portals ret1 = Inr p"
    and cnt: "\<forall>k < 4. num_portals (chunks p k) = 2"
    by blast
  have "discovered p \<and> width p = width ret1 \<and> height p = height ret1"
    by (rule n_create_portals_loops_discovered [OF loops]) (simp add: d1 fresh)
  then have inv: "discovered p" and d: "width p = 2" "height p = 2"
    by (simp_all add: d1)
  have "link_all_chunk_portals A p = Inr (linked_all A p (height p * width p))"
    by (rule link_all_chunk_portals_closed) (rule discovered_room [OF inv])
  then have link: "link_all_chunk_portals A p = Inr (linked_all A p 4)"
    by (simp add: d)
  have "N_BuildForMapData F A (Some g) 2 2 chunk_w chunk_h chunk_tiles = Inr (Some (linked_all A p 4))"
    unfolding N_BuildForMapData_def Let_def using dims
    by (simp add: fields create link seq_def)
  with cnt d show ?thesis by simp
qed

theorem N_BuildForMapData_portals_paired_witness:
  "\<exists>st. N_BuildForMapData 0 manhattan (Some junk_store) 2 2 2 2 open_tiles = Inr (Some st) \<and>
         width st = 2 \<and> height st = 2 \<and> num_portals (chunks st 0) = 2 \<and>
         (\<exists>t \<in> set all_edges. portal_link st 0 0 t) \<and>
         (\<exists>t \<in> set all_edges. portal_link st 0 1 t)"
proof -
  have "\<exists>st. N_BuildForMapData 0 manhattan (Some junk_store) 2 2 2 2 open_tiles = Inr (Some st) \<and>
           width st = 2 \<and> height st = 2 \<and> (\<forall>k < 4. num_portals (chunks st k) = 2)"
    by (rule N_BuildForMapData_2x2_open)
      (simp_all add: open_tiles_def flat_tile_def n_tile_pathable_def)
  then obtain st where
    run: "N_BuildForMapData 0 manhattan (Some junk_store) 2 2 2 2 open_tiles = Inr (Some st)"
    and cnt: "num_portals (chunks st 0) = 2"
    by auto
  note paired = N_BuildForMapData_portals_paired [OF run]
  from paired have d: "width st = 2" "height st = 2" by simp_all
  from paired cnt have "\<exists>t \<in> set all_edges. portal_link st 0 0 t" "\<exists>t \<in> set all_edges. portal_link st 0 1 t"
    by simp_all
  with run d cnt show ?thesis by blast
qed

section \<open>Navigation store: maps on which the build fails\<close>

lemma comb_grid_cases: "comb_grid k = 1 \<or> comb_grid k = COST_IMPASSABLE"
  by (simp add: comb_grid_def)

lemma tile_cost_comb: "tile_cost 0 (comb_tiles k t) = comb_grid t"
  using comb_grid_cases [of t] by (auto simp: tile_cost_def comb_tiles_def n_tile_pathable_def)

lemma tiles_done_comb:
  "tiles_done 0 64 64 (comb_tiles k) 64 0 (comb_chunk\<lparr>num_portals := 0\<rparr>) = comb_chunk"
proof -
  have e: "comb_chunk\<lparr>num_portals := 0\<rparr> = comb_chunk"
    by (simp add: comb_chunk_def)
  have "(\<lambda>c. if tile_col 64 c < 64 \<and> (tile_row 64 c < 64 \<or> (tile_row 64 c = 64 \<and> tile_col 64 c < 0))
             then tile_cost 0 (comb_tiles k (tile_row 64 c * 64 + tile_col 64 c))
             else cost_base comb_chunk c) = comb_grid"
    by (rule ext) (auto simp: tile_row_def tile_col_def tile_cost_comb comb_chunk_def)
  then have "tiles_done 0 64 64 (comb_tiles k) 64 0 comb_chunk = comb_chunk\<lparr>cost_base := comb_grid\<rparr>"
    unfolding tiles_done_def by simp
  then show ?thesis
    unfolding e by (simp add: comb_chunk_def)
qed

lemma cost_fields_done_comb:
  "cost_fields_done 0 64 64 comb_tiles (comb_map\<lparr>width := 3, height := 2\<rparr>) n = comb_map"
proof -
  have c: "chunks (comb_map\<lparr>width := 3, height := 2\<rparr>) k = comb_chunk" for k
    by (simp add: comb_map_def)
  have "(\<lambda>k. if k < n
             then tiles_done 0 64 64 (comb_tiles k) 64 0
                    ((chunks (comb_map\<lparr>width := 3, height := 2\<rparr>) k)\<lparr>num_portals := 0\<rparr>)
             else chunks (comb_map\<lparr>width := 3, height := 2\<rparr>) k) = (\<lambda>_. comb_chunk)"
    unfolding c by (rule ext) (simp add: tiles_done_comb)
  then have "cost_fields_done 0 64 64 comb_tiles (comb_map\<lparr>width := 3, height := 2\<rparr>) n
             = comb_map\<lparr>width := 3, height := 2, chunks := (\<lambda>_. comb_chunk)\<rparr>"
    unfolding cost_fields_done_def by simp
  then show ?thesis
    by (simp add: comb_map_def)
qed

text \<open>
  \<^verbatim>\<open>N_BuildForMapData\<close> on the tiles of the comb map, three chunks wide and two high, every
  shared edge crossable at its even positions: it writes \<^verbatim>\<open>portals[64]\<close> of chunk 1.
\<close>

lemma N_BuildForMapData_comb_overflow:
  "N_BuildForMapData 0 manhattan (Some comb_map) 3 2 64 64 comb_tiles = Inl OutOfBounds"
proof -
  have "build_cost_fields 0 64 64 comb_tiles (comb_map\<lparr>width := 3, height := 2\<rparr>)
        = Inr (cost_fields_done 0 64 64 comb_tiles (comb_map\<lparr>width := 3, height := 2\<rparr>)
                (height (comb_map\<lparr>width := 3, height := 2\<rparr>) * width (comb_map\<lparr>width := 3, height := 2\<rparr>)))"
    by (rule build_cost_fields_closed) simp_all
  then have fields: "build_cost_fields 0 64 64 comb_tiles (comb_map\<lparr>width := 3, height := 2\<rparr>) = Inr comb_map"
    by (simp add: cost_fields_done_comb)
  have "n_create_portals comb_map = Inl OutOfBounds"
    by (simp add: n_create_portals_def n_create_portals_loops_comb)
  then show ?thesis
    by (simp add: N_BuildForMapData_def fields)
qed

text \<open>
  \<^verbatim>\<open>N_BuildForMapData\<close> on a map two chunks wide and one high, whatever its tiles: the
  assertion that ends \<^verbatim>\<open>n_create_portals\<close> fails.
\<close>

lemma N_BuildForMapData_2x1:
  fixes g :: "('w::zero) nav_private"
  assumes dims: "0 < chunk_w" "chunk_w \<le> 64" "64 mod chunk_w = 0"
      "0 < chunk_h" "chunk_h \<le> 64" "64 mod chunk_h = 0"
  shows "N_BuildForMapData F A (Some g) 2 1 chunk_w chunk_h chunk_tiles = Inl AssertFailed"
proof -
  define r1 where "r1 = cost_fields_done F chunk_w chunk_h chunk_tiles (g\<lparr>width := 2, height := 1\<rparr>) (1 * 2)"
  have fields: "build_cost_fields F chunk_w chunk_h chunk_tiles (g\<lparr>width := 2, height := 1\<rparr>) = Inr r1"
    using build_cost_fields_closed [OF dims(1,2,4,5), of F chunk_tiles "g\<lparr>width := 2, height := 1\<rparr>"]
    by (simp add: r1_def)
  have "n_create_portals r1 = Inl AssertFailed"
    by (rule n_create_portals_2x1) (simp_all add: r1_def cost_fields_done_def)
  then show ?thesis
    using dims by (simp add: N_BuildForMapData_def Let_def fields [unfolded One_nat_def])
qed

text \<open>
  Portal discovery on a map three chunks wide and three high whose chunks are all comb
  chunks: chunk 1 has three edges with a neighbour, and the scan of the third writes
  \<^verbatim>\<open>portals[64]\<close>.
\<close>

lemma n_create_portals_loops_comb_3x3:
  fixes p :: "('w::zero) nav_private"
  assumes c0: "\<forall>k. cost_base (chunks p k) = comb_grid" "width p = 3" "height p = 3"
    "\<forall>k. num_portals (chunks p k) = 0"
  shows "n_create_portals_loops p = Inl OutOfBounds"
proof -
  from link_comb [OF c0(1), of 0 3 EDGE_BOT EDGE_TOP "\<lparr>r = 0, c = 0\<rparr>" "\<lparr>r = 0 + 1, c = 0\<rparr>"] c0
  obtain p1 where p1: "link_chunks_at p 0 EDGE_BOT \<lparr>r = 0, c = 0\<rparr> 3 EDGE_TOP \<lparr>r = 0 + 1, c = 0\<rparr> = Inr p1"
    and c1: "\<forall>k. cost_base (chunks p1 k) = comb_grid" "width p1 = 3" "height p1 = 3"
      "\<forall>k. num_portals (chunks p1 k) = (if k = 0 \<or> k = 3 then 32 else 0)"
    by (auto simp: facing_def)
  from link_comb [OF c1(1), of 0 1 EDGE_RIGHT EDGE_LEFT "\<lparr>r = 0, c = 0\<rparr>" "\<lparr>r = 0, c = 0 + 1\<rparr>"] c1
  obtain p2 where p2: "link_chunks_at p1 0 EDGE_RIGHT \<lparr>r = 0, c = 0\<rparr> 1 EDGE_LEFT \<lparr>r = 0, c = 0 + 1\<rparr> = Inr p2"
    and c2: "\<forall>k. cost_base (chunks p2 k) = comb_grid" "width p2 = 3" "height p2 = 3"
      "\<forall>k. num_portals (chunks p2 k) = (if k = 0 \<or> k = 3 then 32 else 0) + (if k = 0 \<or> k = 1 then 32 else 0)"
    by (auto simp: facing_def)
  from link_comb [OF c2(1), of 1 4 EDGE_BOT EDGE_TOP "\<lparr>r = 0, c = 1\<rparr>" "\<lparr>r = 0 + 1, c = 1\<rparr>"] c2
  obtain p3 where p3: "link_chunks_at p2 1 EDGE_BOT \<lparr>r = 0, c = 1\<rparr> 4 EDGE_TOP \<lparr>r = 0 + 1, c = 1\<rparr> = Inr p3"
    and c3: "\<forall>k. cost_base (chunks p3 k) = comb_grid" "width p3 = 3" "height p3 = 3"
      "\<forall>k. num_portals (chunks p3 k) = (if k = 0 \<or> k = 3 then 32 else 0) + (if k = 0 \<or> k = 1 then 32 else 0)
          + (if k = 1 \<or> k = 4 then 32 else 0)"
    by (auto simp: facing_def)
  have p4: "link_chunks_at p3 1 EDGE_RIGHT \<lparr>r = 0, c = 1\<rparr> (Suc (Suc 0)) EDGE_LEFT \<lparr>r = 0, c = 1 + 1\<rparr>
            = Inl OutOfBounds"
    using c3 by (intro link_comb_overflow) (simp_all add: facing_def)
  have b00: "n_create_portals_body 0 0 (p, 0, [])
             = Inr (p2, 2, [(0, EDGE_BOT, 3, EDGE_TOP), (0, EDGE_RIGHT, Suc 0, EDGE_LEFT)])"
    using p1 p2 by (simp add: n_create_portals_body_def Let_def c0 c1)
  have b01: "n_create_portals_body 0 (Suc 0) (p2, 2, [(0, EDGE_BOT, 3, EDGE_TOP), (0, EDGE_RIGHT, Suc 0, EDGE_LEFT)])
             = Inl OutOfBounds"
    using p3 p4 by (simp add: n_create_portals_body_def Let_def c2 c3)
  show ?thesis
    unfolding n_create_portals_loops_def c0 for_upto_3 by (simp add: b00 b01)
qed

lemma cost_fields_done_comb_3x3:
  "cost_fields_done 0 64 64 comb_tiles (comb_map\<lparr>width := 3, height := 3\<rparr>) n = comb_map\<lparr>height := 3\<rparr>"
proof -
  have c: "chunks (comb_map\<lparr>width := 3, height := 3\<rparr>) k = comb_chunk" for k
    by (simp add: comb_map_def)
  have "(\<lambda>k. if k < n
             then tiles_done 0 64 64 (comb_tiles k) 64 0
                    ((chunks (comb_map\<lparr>width := 3, height := 3\<rparr>) k)\<lparr>num_portals := 0\<rparr>)
             else chunks (comb_map\<lparr>width := 3, height := 3\<rparr>) k) = (\<lambda>_. comb_chunk)"
    unfolding c by (rule ext) (simp add: tiles_done_comb)
  then have "cost_fields_done 0 64 64 comb_tiles (comb_map\<lparr>width := 3, height := 3\<rparr>) n
             = comb_map\<lparr>width := 3, height := 3, chunks := (\<lambda>_. comb_chunk)\<rparr>"
    unfolding cost_fields_done_def by simp
  then show ?thesis
    by (simp add: comb_map_def)
qed

text \<open>
  Claim C3, at the tiles of the comb map three chunks wide and three high, one tile to a
  cost cell, the boundary tiles of every chunk pathable at the even positions: chunk 1 holds
  64 portals when \<^verbatim>\<open>N_BuildForMapData\<close> comes to its right edge, and the next portal is
  written to \<^verbatim>\<open>portals[64]\<close>, outside the array.
\<close>

theorem N_BuildForMapData_comb_3x3_overflow:
  "N_BuildForMapData 0 manhattan (Some comb_map) 3 3 64 64 comb_tiles = Inl OutOfBounds"
proof -
  have "build_cost_fields 0 64 64 comb_tiles (comb_map\<lparr>width := 3, height := 3\<rparr>)
        = Inr (cost_fields_done 0 64 64 comb_tiles (comb_map\<lparr>width := 3, height := 3\<rparr>)
                (height (comb_map\<lparr>width := 3, height := 3\<rparr>) * width (comb_map\<lparr>width := 3, height := 3\<rparr>)))"
    by (rule build_cost_fields_closed) simp_all
  then have fields: "build_cost_fields 0 64 64 comb_tiles (comb_map\<lparr>width := 3, height := 3\<rparr>)
                     = Inr (comb_map\<lparr>height := 3\<rparr>)"
    by (simp add: cost_fields_done_comb_3x3)
  have "n_create_portals_loops (comb_map\<lparr>height := 3\<rparr>) = Inl OutOfBounds"
    by (rule n_create_portals_loops_comb_3x3) (simp_all add: comb_map_def comb_chunk_def)
  then have "n_create_portals (comb_map\<lparr>height := 3\<rparr>) = Inl OutOfBounds"
    by (simp add: n_create_portals_def)
  then show ?thesis
    by (simp add: N_BuildForMapData_def fields)
qed

section \<open>Navigation store: independence of the contents of the allocated block\<close>

lemma seq_rel:
  assumes "rel_sum (=) R x y" and "\<And>a b. R a b \<Longrightarrow> rel_sum (=) S (f a) (g b)"
  shows "rel_sum (=) S (seq x f) (seq y g)"
  using assms by (cases x; cases y) simp_all

lemma for_upto_rel:
  assumes "R s t" and "\<And>i a b. i < n \<Longrightarrow> R a b \<Longrightarrow> rel_sum (=) R (body i a) (body' i b)"
  shows "rel_sum (=) R (for_upto n body s) (for_upto n body' t)"
  using assms(2)
proof (induction n)
  case 0
  with assms(1) show ?case by simp
next
  case (Suc n)
  have "rel_sum (=) R (for_upto n body s) (for_upto n body' t)"
    by (rule Suc.IH) (simp add: Suc.prems)
  then show ?case
    unfolding for_upto.simps by (rule seq_rel) (simp add: Suc.prems)
qed

lemma edge_cells_in_grid:
  assumes "facing a_type b_type" and "i < 64"
  shows "edge_start a_type + i * link_stride a_type < 4096"
    "edge_start b_type + i * link_stride a_type < 4096"
  using assms by (auto simp: facing_def edge_start_def link_stride_def cell_def)

lemma link_spans_cells_cong:
  assumes "\<And>k. k < 4096 \<Longrightarrow> cost_base a k = cost_base a' k"
    and "\<And>k. k < 4096 \<Longrightarrow> cost_base b k = cost_base b' k"
    and "facing a_type b_type"
  shows "link_spans a a_type b b_type = link_spans a' a_type b' b_type"
  unfolding link_spans_def
proof (rule scan_cong)
  fix i :: nat assume "i < 64"
  from edge_cells_in_grid [OF assms(3) this]
  show "crossable a a_type b b_type i = crossable a' a_type b' b_type i"
    by (simp add: crossable_def can_cross_at_def assms(1,2))
qed

lemma same_chunk_linked:
  assumes "same_chunk a a'"
  shows "same_chunk (linked_chunk a t cc p np st) (linked_chunk a' t cc p np st)"
  unfolding same_chunk_def
proof (intro conjI allI impI)
  from assms have np: "num_portals a = num_portals a'"
    and old: "\<And>m. m < num_portals a \<Longrightarrow> portals a m = portals a' m"
    and cost: "\<And>k. k < 64 * 64 \<Longrightarrow> cost_base a k = cost_base a' k"
    by (simp_all add: same_chunk_def)
  show "num_portals (linked_chunk a t cc p np st) = num_portals (linked_chunk a' t cc p np st)"
    by (simp add: np)
  fix k :: nat assume "k < 64 * 64"
  then show "cost_base (linked_chunk a t cc p np st) k = cost_base (linked_chunk a' t cc p np st) k"
    by (simp add: cost)
next
  from assms have np: "num_portals a = num_portals a'"
    and old: "\<And>m. m < num_portals a \<Longrightarrow> portals a m = portals a' m"
    by (simp_all add: same_chunk_def)
  fix m assume m: "m < num_portals (linked_chunk a t cc p np st)"
  show "portals (linked_chunk a t cc p np st) m = portals (linked_chunk a' t cc p np st) m"
  proof (cases "m < num_portals a")
    case True
    then show ?thesis
      using old [OF True] by (simp add: linked_chunk_old np [symmetric])
  next
    case False
    with m have j: "m - num_portals a < length (fst st)" and mm: "m = num_portals a + (m - num_portals a)"
      by simp_all
    have "portals (linked_chunk a t cc p np st) (num_portals a + (m - num_portals a))
          = portals (linked_chunk a' t cc p np st) (num_portals a' + (m - num_portals a))"
      unfolding linked_chunk_new [OF j] ..
    with mm np show ?thesis by simp
  qed
qed

text \<open>A call of \<^verbatim>\<open>n_link_chunks\<close> on two stores that agree ends the same way and leaves stores that agree.\<close>

lemma link_chunks_at_same:
  fixes p q :: "('w::zero) nav_private"
  assumes rel: "same_capped p q" and lt: "ai < bi" and bi: "bi < width p * height p"
    and fc: "facing a_type b_type"
  shows "rel_sum (=) (\<lambda>p' q'. same_capped p' q' \<and> width p' = width p \<and> height p' = height p)
           (link_chunks_at p ai a_type a_coord bi b_type b_coord)
           (link_chunks_at q ai a_type a_coord bi b_type b_coord)"
proof -
  from lt bi have ai: "ai < width p * height p" by simp
  from rel have st: "same_store p q"
    and cap: "\<And>k. k < width p * height p \<Longrightarrow> num_portals (chunks p k) \<le> 64"
    by (simp_all add: same_capped_def)
  from st have d: "width q = width p" "height q = height p"
    and ch: "\<And>k. k < width p * height p \<Longrightarrow> same_chunk (chunks p k) (chunks q k)"
    by (simp_all add: same_store_def)
  from ch [OF ai] ch [OF bi] have np: "num_portals (chunks q ai) = num_portals (chunks p ai)"
    "num_portals (chunks q bi) = num_portals (chunks p bi)"
    and cells: "\<And>k. k < 4096 \<Longrightarrow> cost_base (chunks p ai) k = cost_base (chunks q ai) k"
      "\<And>k. k < 4096 \<Longrightarrow> cost_base (chunks p bi) k = cost_base (chunks q bi) k"
    by (simp_all add: same_chunk_def)
  define sp where "sp = link_spans (chunks p ai) a_type (chunks p bi) b_type"
  have sq: "link_spans (chunks q ai) a_type (chunks q bi) b_type = sp"
    unfolding sp_def by (rule link_spans_cells_cong [symmetric, OF cells fc])
  have capp: "num_portals (chunks p ai) \<le> 64" "num_portals (chunks p bi) \<le> 64"
    using cap [OF ai] cap [OF bi] by simp_all
  have capq: "num_portals (chunks q ai) \<le> 64" "num_portals (chunks q bi) \<le> 64"
    using capp by (simp_all add: np)
  define fits where "fits \<longleftrightarrow>
    num_portals (chunks p ai) + opened sp \<le> 64 \<and> num_portals (chunks p bi) + opened sp \<le> 64"
  note cp = link_chunks_at_cases [OF lt fc capp, of a_coord b_coord, folded sp_def, folded fits_def]
  note cq = link_chunks_at_cases [OF lt fc capq, of a_coord b_coord, unfolded sq np, folded fits_def]
  show ?thesis
  proof (cases fits)
    case False
    then show ?thesis unfolding cp cq by simp
  next
    case True
    then have room: "num_portals (chunks p ai) + opened sp \<le> 64" "num_portals (chunks p bi) + opened sp \<le> 64"
      by (simp_all add: fits_def)
    have len: "length (fst sp) \<le> opened sp" by (simp add: opened_def)
    let ?A = "linked_chunk (chunks p ai) a_type a_coord bi (num_portals (chunks p bi)) sp"
    let ?B = "linked_chunk (chunks p bi) b_type b_coord ai (num_portals (chunks p ai)) sp"
    let ?A' = "linked_chunk (chunks q ai) a_type a_coord bi (num_portals (chunks p bi)) sp"
    let ?B' = "linked_chunk (chunks q bi) b_type b_coord ai (num_portals (chunks p ai)) sp"
    have sA: "same_chunk ?A ?A'" by (rule same_chunk_linked [OF ch [OF ai]])
    have sB: "same_chunk ?B ?B'" by (rule same_chunk_linked [OF ch [OF bi]])
    have "same_capped (p\<lparr>chunks := (chunks p)(ai := ?A, bi := ?B)\<rparr>) (q\<lparr>chunks := (chunks q)(ai := ?A', bi := ?B')\<rparr>)"
      unfolding same_capped_def same_store_def
      using d sA sB ch cap room len by auto
    with True show ?thesis unfolding cp cq by simp
  qed
qed

lemma n_create_portals_body_alt:
  fixes p :: "('w::zero) nav_private"
  shows "n_create_portals_body i j (p, n, calls) =
      seq (if i + 1 < height p
           then seq (link_chunks_at p (i * width p + j) EDGE_BOT \<lparr>r = int i, c = int j\<rparr>
                       (i * width p + j + width p) EDGE_TOP \<lparr>r = int i + 1, c = int j\<rparr>)
                  (\<lambda>q. Inr (q, calls @ [(i * width p + j, EDGE_BOT, i * width p + j + width p, EDGE_TOP)]))
           else Inr (p, calls))
        (\<lambda>(p1, calls1).
           seq (if j + 1 < width p
                then seq (link_chunks_at p1 (i * width p + j) EDGE_RIGHT \<lparr>r = int i, c = int j\<rparr>
                            (i * width p + j + 1) EDGE_LEFT \<lparr>r = int i, c = int j + 1\<rparr>)
                       (\<lambda>q. Inr (q, calls1 @ [(i * width p + j, EDGE_RIGHT, i * width p + j + 1, EDGE_LEFT)]))
                else Inr (p1, calls1))
             (\<lambda>(p2, calls2).
                Inr (p2, n + ((if i + 1 < height p then 1 else 0) + (if j + 1 < width p then 1 else 0)), calls2)))"
proof -
  have idx': "width p + i * width p + j = i * width p + j + width p"
    by simp
  show ?thesis
    unfolding n_create_portals_body_def Let_def
    by (auto simp: less_diff_conv idx' intro!: arg_cong2 [where f = seq] ext)
qed

lemma n_create_portals_body_same:
  fixes p q :: "('w::zero) nav_private"
  assumes rel: "same_progress w h (p, n, cs) (q, n', cs')" and i: "i < h" and j: "j < w"
  shows "rel_sum (=) (same_progress w h) (n_create_portals_body i j (p, n, cs)) (n_create_portals_body i j (q, n', cs'))"
proof -
  from rel have sc: "same_capped p q" and d: "width p = w" "height p = h" and eq: "n' = n" "cs' = cs"
    by (simp_all add: same_progress_def)
  from sc have dq: "width q = w" "height q = h"
    by (simp_all add: same_capped_def same_store_def d [symmetric])
  note ar = chunk_idx_arith [OF j i]
  define R2 where "R2 = (\<lambda>(a :: 'w nav_private \<times> link_call list) b.
      same_capped (fst a) (fst b) \<and> width (fst a) = w \<and> height (fst a) = h \<and> snd a = snd b)"
  have first: "rel_sum (=) R2
      (if i + 1 < h
           then seq (link_chunks_at p (i * w + j) EDGE_BOT \<lparr>r = int i, c = int j\<rparr>
                       (i * w + j + w) EDGE_TOP \<lparr>r = int i + 1, c = int j\<rparr>)
                  (\<lambda>x. Inr (x, cs @ [(i * w + j, EDGE_BOT, i * w + j + w, EDGE_TOP)]))
           else Inr (p, cs))
      (if i + 1 < h
           then seq (link_chunks_at q (i * w + j) EDGE_BOT \<lparr>r = int i, c = int j\<rparr>
                       (i * w + j + w) EDGE_TOP \<lparr>r = int i + 1, c = int j\<rparr>)
                  (\<lambda>x. Inr (x, cs @ [(i * w + j, EDGE_BOT, i * w + j + w, EDGE_TOP)]))
           else Inr (q, cs))"
  proof (cases "i + 1 < h")
    case False
    with sc d show ?thesis by (simp add: R2_def)
  next
    case True
    from j have "0 < w" by simp
    then have lt: "i * w + j < i * w + j + w" by simp
    from ar(4) [OF True] have bi: "i * w + j + w < width p * height p" by (simp add: d)
    have "rel_sum (=) (\<lambda>p' q'. same_capped p' q' \<and> width p' = width p \<and> height p' = height p)
           (link_chunks_at p (i * w + j) EDGE_BOT \<lparr>r = int i, c = int j\<rparr>
                       (i * w + j + w) EDGE_TOP \<lparr>r = int i + 1, c = int j\<rparr>)
           (link_chunks_at q (i * w + j) EDGE_BOT \<lparr>r = int i, c = int j\<rparr>
                       (i * w + j + w) EDGE_TOP \<lparr>r = int i + 1, c = int j\<rparr>)"
      by (rule link_chunks_at_same [OF sc lt bi]) (simp add: facing_def)
    then have "rel_sum (=) R2
        (seq (link_chunks_at p (i * w + j) EDGE_BOT \<lparr>r = int i, c = int j\<rparr>
                       (i * w + j + w) EDGE_TOP \<lparr>r = int i + 1, c = int j\<rparr>)
                  (\<lambda>x. Inr (x, cs @ [(i * w + j, EDGE_BOT, i * w + j + w, EDGE_TOP)])))
        (seq (link_chunks_at q (i * w + j) EDGE_BOT \<lparr>r = int i, c = int j\<rparr>
                       (i * w + j + w) EDGE_TOP \<lparr>r = int i + 1, c = int j\<rparr>)
                  (\<lambda>x. Inr (x, cs @ [(i * w + j, EDGE_BOT, i * w + j + w, EDGE_TOP)])))"
      by (rule seq_rel) (simp add: R2_def d)
    with True show ?thesis by simp
  qed
  have second: "rel_sum (=) R2
      (if j + 1 < w
                then seq (link_chunks_at p1 (i * w + j) EDGE_RIGHT \<lparr>r = int i, c = int j\<rparr>
                            (i * w + j + 1) EDGE_LEFT \<lparr>r = int i, c = int j + 1\<rparr>)
                       (\<lambda>x. Inr (x, c1 @ [(i * w + j, EDGE_RIGHT, i * w + j + 1, EDGE_LEFT)]))
                else Inr (p1, c1))
      (if j + 1 < w
                then seq (link_chunks_at q1 (i * w + j) EDGE_RIGHT \<lparr>r = int i, c = int j\<rparr>
                            (i * w + j + 1) EDGE_LEFT \<lparr>r = int i, c = int j + 1\<rparr>)
                       (\<lambda>x. Inr (x, c1' @ [(i * w + j, EDGE_RIGHT, i * w + j + 1, EDGE_LEFT)]))
                else Inr (q1, c1'))"
    if r2: "R2 (p1, c1) (q1, c1')" for p1 q1 :: "'w nav_private" and c1 c1'
  proof -
    from r2 have sc1: "same_capped p1 q1" and d1: "width p1 = w" "height p1 = h" and ceq: "c1' = c1"
      by (simp_all add: R2_def)
    show ?thesis
    proof (cases "j + 1 < w")
      case False
      with r2 show ?thesis by simp
    next
      case True
      have lt: "i * w + j < i * w + j + 1" by simp
      from ar(5) [OF True] have bi: "i * w + j + 1 < width p1 * height p1" by (simp add: d1)
      have "rel_sum (=) (\<lambda>p' q'. same_capped p' q' \<and> width p' = width p1 \<and> height p' = height p1)
           (link_chunks_at p1 (i * w + j) EDGE_RIGHT \<lparr>r = int i, c = int j\<rparr>
                            (i * w + j + 1) EDGE_LEFT \<lparr>r = int i, c = int j + 1\<rparr>)
           (link_chunks_at q1 (i * w + j) EDGE_RIGHT \<lparr>r = int i, c = int j\<rparr>
                            (i * w + j + 1) EDGE_LEFT \<lparr>r = int i, c = int j + 1\<rparr>)"
        by (rule link_chunks_at_same [OF sc1 lt bi]) (simp add: facing_def)
      then have "rel_sum (=) R2
          (seq (link_chunks_at p1 (i * w + j) EDGE_RIGHT \<lparr>r = int i, c = int j\<rparr>
                            (i * w + j + 1) EDGE_LEFT \<lparr>r = int i, c = int j + 1\<rparr>)
                       (\<lambda>x. Inr (x, c1 @ [(i * w + j, EDGE_RIGHT, i * w + j + 1, EDGE_LEFT)])))
          (seq (link_chunks_at q1 (i * w + j) EDGE_RIGHT \<lparr>r = int i, c = int j\<rparr>
                            (i * w + j + 1) EDGE_LEFT \<lparr>r = int i, c = int j + 1\<rparr>)
                       (\<lambda>x. Inr (x, c1' @ [(i * w + j, EDGE_RIGHT, i * w + j + 1, EDGE_LEFT)])))"
        by (rule seq_rel) (simp add: R2_def d1 ceq)
      with True show ?thesis by simp
    qed
  qed
  show ?thesis
    unfolding n_create_portals_body_alt d dq eq
  proof (rule seq_rel [OF first])
    fix a b :: "'w nav_private \<times> link_call list"
    assume ab: "R2 a b"
    obtain p1 c1 where a: "a = (p1, c1)" by (cases a)
    obtain q1 c1' where b: "b = (q1, c1')" by (cases b)
    show "rel_sum (=) (same_progress w h)
        (case a of (p1, calls1) \<Rightarrow>
           seq (if j + 1 < w
                then seq (link_chunks_at p1 (i * w + j) EDGE_RIGHT \<lparr>r = int i, c = int j\<rparr>
                            (i * w + j + 1) EDGE_LEFT \<lparr>r = int i, c = int j + 1\<rparr>)
                       (\<lambda>q. Inr (q, calls1 @ [(i * w + j, EDGE_RIGHT, i * w + j + 1, EDGE_LEFT)]))
                else Inr (p1, calls1))
             (\<lambda>(p2, calls2).
                Inr (p2, n + ((if i + 1 < h then 1 else 0) + (if j + 1 < w then 1 else 0)), calls2)))
        (case b of (p1, calls1) \<Rightarrow>
           seq (if j + 1 < w
                then seq (link_chunks_at p1 (i * w + j) EDGE_RIGHT \<lparr>r = int i, c = int j\<rparr>
                            (i * w + j + 1) EDGE_LEFT \<lparr>r = int i, c = int j + 1\<rparr>)
                       (\<lambda>q. Inr (q, calls1 @ [(i * w + j, EDGE_RIGHT, i * w + j + 1, EDGE_LEFT)]))
                else Inr (p1, calls1))
             (\<lambda>(p2, calls2).
                Inr (p2, n + ((if i + 1 < h then 1 else 0) + (if j + 1 < w then 1 else 0)), calls2)))"
      unfolding a b prod.case
      by (rule seq_rel [OF second [OF ab [unfolded a b]]]) (auto simp: R2_def same_progress_def)
  qed
qed

text \<open>Portal discovery on two stores that agree ends the same way and leaves stores that agree.\<close>

lemma n_create_portals_loops_same:
  fixes p q :: "('w::zero) nav_private"
  assumes "same_capped p q"
  shows "rel_sum (=) (same_progress (width p) (height p)) (n_create_portals_loops p) (n_create_portals_loops q)"
proof -
  from assms have dq: "width q = width p" "height q = height p"
    by (simp_all add: same_capped_def same_store_def)
  have start: "same_progress (width p) (height p) (p, 0, []) (q, 0, [])"
    using assms by (simp add: same_progress_def)
  show ?thesis
    unfolding n_create_portals_loops_def dq
  proof (rule for_upto_rel [where R = "same_progress (width p) (height p)", OF start])
    fix i a b
    assume i: "i < height p" and ab: "same_progress (width p) (height p) a (b :: 'w nav_private \<times> nat \<times> link_call list)"
    show "rel_sum (=) (same_progress (width p) (height p))
            (for_upto (width p) (n_create_portals_body i) a) (for_upto (width p) (n_create_portals_body i) b)"
    proof (rule for_upto_rel [where R = "same_progress (width p) (height p)", OF ab])
      fix j s t
      assume j: "j < width p" and st: "same_progress (width p) (height p) s (t :: 'w nav_private \<times> nat \<times> link_call list)"
      obtain p1 n1 c1 where s: "s = (p1, n1, c1)" by (cases s)
      obtain q1 n2 c2 where t: "t = (q1, n2, c2)" by (cases t)
      show "rel_sum (=) (same_progress (width p) (height p)) (n_create_portals_body i j s) (n_create_portals_body i j t)"
        unfolding s t by (rule n_create_portals_body_same [OF st [unfolded s t] i j])
    qed
  qed
qed

lemma n_create_portals_same:
  fixes p q :: "('w::zero) nav_private"
  assumes "same_capped p q"
  shows "rel_sum (=) same_capped (n_create_portals p) (n_create_portals q)"
  unfolding n_create_portals_def
proof (rule seq_rel [OF n_create_portals_loops_same [OF assms]])
  fix a b :: "'w nav_private \<times> nat \<times> link_call list"
  assume ab: "same_progress (width p) (height p) a b"
  obtain p1 n1 c1 where a: "a = (p1, n1, c1)" by (cases a)
  obtain q1 n2 c2 where b: "b = (q1, n2, c2)" by (cases b)
  from ab have "same_capped p1 q1" "n2 = n1" "width q1 = width p1" "height q1 = height p1"
    by (simp_all add: a b same_progress_def same_capped_def same_store_def)
  then show "rel_sum (=) same_capped
      (case a of (priv, n_links, calls) \<Rightarrow>
         if \<not> n_links = width priv * (width priv - 1) + height priv * (height priv - 1)
         then Inl AssertFailed else Inr priv)
      (case b of (priv, n_links, calls) \<Rightarrow>
         if \<not> n_links = width priv * (width priv - 1) + height priv * (height priv - 1)
         then Inl AssertFailed else Inr priv)"
    by (simp add: a b)
qed

lemma cost_fields_done_same:
  assumes dims: "0 < chunk_w" "64 mod chunk_w = 0" "0 < chunk_h" "64 mod chunk_h = 0"
    and d: "width g = width g'" "height g = height g'" and n: "width g * height g \<le> n"
  shows "same_capped (cost_fields_done F chunk_w chunk_h chunk_tiles g n)
                     (cost_fields_done F chunk_w chunk_h chunk_tiles g' n)"
  unfolding same_capped_def same_store_def same_chunk_def
  using d n by (auto simp: cost_fields_done_def tiles_done_cost [OF dims])

lemma linker_state_same_chunk:
  assumes local: "reads_grid_only A" and same: "same_chunk ch ch'"
  shows "same_chunk (linker_state A p ch (num_portals ch) 0) (linker_state A p ch' (num_portals ch') 0)"
proof -
  from same have np: "num_portals ch' = num_portals ch"
    and old: "\<And>m. m < num_portals ch \<Longrightarrow> portals ch' m = portals ch m"
    and cost: "\<forall>k < 64 * 64. cost_base ch k = cost_base ch' k"
    by (simp_all add: same_chunk_def)
  have path: "A a b (cost_base ch) = A a b (cost_base ch')" for a b
    using local cost unfolding reads_grid_only_def by blast
  have "portals (linker_state A p ch (num_portals ch) 0) m = portals (linker_state A p ch' (num_portals ch) 0) m"
    if m: "m < num_portals ch" for m
  proof -
    have e: "edges_to A p ch m (num_portals ch) = edges_to A p ch' m (num_portals ch)"
      by (rule edges_to_cong) (simp add: old m path)
    have a: "portals (linker_state A p ch (num_portals ch) 0) m
             = add_edges (portals ch m) (edges_to A p ch m (num_portals ch))"
      by (rule portals_linker_state_end [OF m])
    have "portals (linker_state A p ch' (num_portals ch') 0) m
             = add_edges (portals ch' m) (edges_to A p ch' m (num_portals ch'))"
      by (rule portals_linker_state_end) (simp add: np m)
    then have b: "portals (linker_state A p ch' (num_portals ch) 0) m
             = add_edges (portals ch m) (edges_to A p ch' m (num_portals ch))"
      by (simp add: np old [OF m])
    show ?thesis unfolding a b e ..
  qed
  with cost np have "same_chunk (linker_state A p ch (num_portals ch) 0) (linker_state A p ch' (num_portals ch) 0)"
    by (simp add: same_chunk_def)
  then show ?thesis by (simp add: np)
qed

lemma rel_sum_results:
  "rel_sum (=) R x y \<Longrightarrow> rel_sum (=) (\<lambda>a b. R a b \<and> x = Inr a \<and> y = Inr b) x y"
  by (cases x; cases y) simp_all

lemma linked_all_same:
  assumes "reads_grid_only A" and "same_store p q"
  shows "same_store (linked_all A p n) (linked_all A q n)"
  using assms(2) linker_state_same_chunk [OF assms(1)]
  by (simp add: same_store_def linked_all_def)

text \<open>
  Claim C9. Two calls of \<^verbatim>\<open>N_BuildForMapData\<close> on the same map dimensions, tile dimensions
  and tiles, with a pathfinder that reads the grid it is handed and nothing else, in both
  of which \<^verbatim>\<open>malloc\<close> succeeds or in both of which it fails, end the same way whatever the
  allocated blocks held: with the same error, or both with the null handle, or with two
  stores that have the same dimensions and, chunk by chunk, the same cost grid, the same
  portal count and the same recorded portals, endpoints, counterpart, edges and costs.
\<close>

theorem N_BuildForMapData_deterministic:
  fixes alloc alloc' :: "('w::zero) nav_private option"
  assumes local: "reads_grid_only AStar_GridPath" and alloc: "(alloc = None) = (alloc' = None)"
  shows "rel_sum (=) (rel_option same_store)
           (N_BuildForMapData TILETYPE_FLAT AStar_GridPath alloc w h chunk_w chunk_h chunk_tiles)
           (N_BuildForMapData TILETYPE_FLAT AStar_GridPath alloc' w h chunk_w chunk_h chunk_tiles)"
proof (cases alloc)
  case None
  with alloc show ?thesis by (simp add: N_BuildForMapData_def)
next
  case (Some g)
  with alloc obtain g' where Some': "alloc' = Some g'" by (cases alloc') simp_all
  show ?thesis
  proof (cases "0 < chunk_w \<and> chunk_w \<le> 64 \<and> 64 mod chunk_w = 0 \<and> 0 < chunk_h \<and> chunk_h \<le> 64 \<and> 64 mod chunk_h = 0")
    case False
    then show ?thesis
      unfolding Some Some' N_BuildForMapData_def Let_def by auto
  next
    case True
    then have dims: "0 < chunk_w" "chunk_w \<le> 64" "64 mod chunk_w = 0"
      "0 < chunk_h" "chunk_h \<le> 64" "64 mod chunk_h = 0"
      by simp_all
    define r1 where "r1 = cost_fields_done TILETYPE_FLAT chunk_w chunk_h chunk_tiles (g\<lparr>width := w, height := h\<rparr>) (h * w)"
    define r2 where "r2 = cost_fields_done TILETYPE_FLAT chunk_w chunk_h chunk_tiles (g'\<lparr>width := w, height := h\<rparr>) (h * w)"
    have f1: "build_cost_fields TILETYPE_FLAT chunk_w chunk_h chunk_tiles (g\<lparr>width := w, height := h\<rparr>) = Inr r1"
      using build_cost_fields_closed [OF dims(1,2,4,5), of TILETYPE_FLAT chunk_tiles "g\<lparr>width := w, height := h\<rparr>"]
      by (simp add: r1_def)
    have f2: "build_cost_fields TILETYPE_FLAT chunk_w chunk_h chunk_tiles (g'\<lparr>width := w, height := h\<rparr>) = Inr r2"
      using build_cost_fields_closed [OF dims(1,2,4,5), of TILETYPE_FLAT chunk_tiles "g'\<lparr>width := w, height := h\<rparr>"]
      by (simp add: r2_def)
    have b1: "N_BuildForMapData TILETYPE_FLAT AStar_GridPath alloc w h chunk_w chunk_h chunk_tiles
              = seq (n_create_portals r1) (\<lambda>ret. seq (link_all_chunk_portals AStar_GridPath ret) (\<lambda>ret. Inr (Some ret)))"
      unfolding Some N_BuildForMapData_def Let_def using dims by (simp add: f1)
    have b2: "N_BuildForMapData TILETYPE_FLAT AStar_GridPath alloc' w h chunk_w chunk_h chunk_tiles
              = seq (n_create_portals r2) (\<lambda>ret. seq (link_all_chunk_portals AStar_GridPath ret) (\<lambda>ret. Inr (Some ret)))"
      unfolding Some' N_BuildForMapData_def Let_def using dims by (simp add: f2)
    have rel: "same_capped r1 r2"
      unfolding r1_def r2_def
      by (rule cost_fields_done_same [OF dims(1,3,4,6)]) (simp_all add: mult.commute)
    have fresh: "num_portals (chunks r1 k) = 0" "num_portals (chunks r2 k) = 0" if "k < w * h" for k
      using that by (simp_all add: r1_def r2_def cost_fields_done_def mult.commute)
    have d: "width r1 = w" "height r1 = h" "width r2 = w" "height r2 = h"
      by (simp_all add: r1_def r2_def)
    have linked: "link_all_chunk_portals AStar_GridPath p = Inr (linked_all AStar_GridPath p (h * w))"
      if "n_create_portals r = Inr p" and "r = r1 \<or> r = r2" for r p
    proof -
      from that(1) obtain n_links calls where loops: "n_create_portals_loops r = Inr (p, n_links, calls)"
        unfolding n_create_portals_def by (auto simp: seq_eq_Inr split: if_splits)
      have "discovered p \<and> width p = width r \<and> height p = height r"
        by (rule n_create_portals_loops_discovered [OF loops]) (use that(2) fresh d in auto)
      then have inv: "discovered p" and dp: "width p = w" "height p = h"
        using that(2) d by auto
      have "link_all_chunk_portals AStar_GridPath p = Inr (linked_all AStar_GridPath p (height p * width p))"
        by (rule link_all_chunk_portals_closed) (rule discovered_room [OF inv])
      then show ?thesis by (simp add: dp)
    qed
    show ?thesis
      unfolding b1 b2
    proof (rule seq_rel [OF rel_sum_results [OF n_create_portals_same [OF rel]]])
      fix p q :: "'w nav_private"
      assume pq: "same_capped p q \<and> n_create_portals r1 = Inr p \<and> n_create_portals r2 = Inr q"
      then have l1: "link_all_chunk_portals AStar_GridPath p = Inr (linked_all AStar_GridPath p (h * w))"
        and l2: "link_all_chunk_portals AStar_GridPath q = Inr (linked_all AStar_GridPath q (h * w))"
        using linked [of r1 p] linked [of r2 q] by simp_all
      from pq have "same_store p q" by (simp add: same_capped_def)
      from linked_all_same [OF local this]
      show "rel_sum (=) (rel_option same_store)
              (seq (link_all_chunk_portals AStar_GridPath p) (\<lambda>ret. Inr (Some ret)))
              (seq (link_all_chunk_portals AStar_GridPath q) (\<lambda>ret. Inr (Some ret)))"
        unfolding l1 l2 by simp
    qed
  qed
qed

theorem N_BuildForMapData_deterministic_witness:
  "\<exists>st st'.
     N_BuildForMapData 0 manhattan (Some junk_store) 2 2 2 2 open_tiles = Inr (Some st) \<and>
     N_BuildForMapData 0 manhattan (Some map_2x1) 2 2 2 2 open_tiles = Inr (Some st') \<and>
     same_store st st' \<and>
     num_portals (chunks st 0) = 2 \<and> num_portals (chunks st' 0) = 2 \<and>
     portals (chunks st 0) 0 = portals (chunks st' 0) 0 \<and>
     portals (chunks st 0) 1 = portals (chunks st' 0) 1"
proof -
  have local: "reads_grid_only manhattan"
    by (simp add: reads_grid_only_def manhattan_def)
  have alloc: "(Some junk_store = None) = (Some map_2x1 = None)"
    by simp
  have "\<exists>st. N_BuildForMapData 0 manhattan (Some junk_store) 2 2 2 2 open_tiles = Inr (Some st) \<and>
           width st = 2 \<and> height st = 2 \<and> (\<forall>k < 4. num_portals (chunks st k) = 2)"
    by (rule N_BuildForMapData_2x2_open)
      (simp_all add: open_tiles_def flat_tile_def n_tile_pathable_def)
  then obtain st where
    run: "N_BuildForMapData 0 manhattan (Some junk_store) 2 2 2 2 open_tiles = Inr (Some st)"
    and d: "width st = 2" "height st = 2" and cnt: "num_portals (chunks st 0) = 2"
    by auto
  from N_BuildForMapData_deterministic [OF local alloc, of 0 2 2 2 2 open_tiles]
  obtain st' where
    run': "N_BuildForMapData 0 manhattan (Some map_2x1) 2 2 2 2 open_tiles = Inr (Some st')"
    and same: "same_store st st'"
    unfolding run
    by (cases "N_BuildForMapData 0 manhattan (Some map_2x1) 2 2 2 2 open_tiles")
      (auto simp: option_rel_Some1)
  from same d have ch: "same_chunk (chunks st 0) (chunks st' 0)"
    by (simp add: same_store_def)
  with cnt have "num_portals (chunks st' 0) = 2"
    "portals (chunks st 0) 0 = portals (chunks st' 0) 0"
    "portals (chunks st 0) 1 = portals (chunks st' 0) 1"
    by (simp_all add: same_chunk_def)
  with run run' same cnt show ?thesis by blast
qed

end
